theory Spec2Isabelle
  imports Main
begin

section \<open>JavaScript values used by the extension\<close>

text \<open>
  Strings are lists of 8-bit characters (ASCII and Latin-1). The numbers that reach the
  code below are the integer risk scores of the scoring service and the results of
  \<^verbatim>\<open>parseInt\<close>, which are integers or NaN; they are modelled exactly as unbounded
  integers plus NaN. The only operations the code applies to them are the comparisons
  with 70, 40 and 20, which agree with the double-precision comparisons.
\<close>

datatype jsnum = NaN | Num int

text \<open>\<^verbatim>\<open>x >= k\<close> for a number or NaN: every comparison with NaN is false.\<close>

definition js_ge :: "jsnum \<Rightarrow> int \<Rightarrow> bool" where
  "js_ge x k = (case x of NaN \<Rightarrow> False | Num n \<Rightarrow> k \<le> n)"

text \<open>
  A field of the parsed response that may be missing: \<open>None\<close> is \<^verbatim>\<open>undefined\<close>.
  \<^verbatim>\<open>undefined >= k\<close> converts \<^verbatim>\<open>undefined\<close> to NaN.
\<close>

definition to_number :: "int option \<Rightarrow> jsnum" where
  "to_number v = (case v of None \<Rightarrow> NaN | Some n \<Rightarrow> Num n)"

text \<open>\<^verbatim>\<open>String(n)\<close> for an integer \<open>n\<close> with \<open>|n| < 10^21\<close>: the decimal digits.\<close>

definition digit_char :: "nat \<Rightarrow> char" where
  "digit_char d = ''0123456789'' ! d"

fun string_of_nat :: "nat \<Rightarrow> string" where
  "string_of_nat n =
     (if n < 10 then [digit_char n] else string_of_nat (n div 10) @ [digit_char (n mod 10)])"

declare string_of_nat.simps [simp del]

definition string_of_int :: "int \<Rightarrow> string" where
  "string_of_int n =
     (if n < 0 then CHR ''-'' # string_of_nat (nat (- n)) else string_of_nat (nat n))"

text \<open>\<^verbatim>\<open>String(v)\<close> as \<^verbatim>\<open>setAttribute\<close> and template literals apply it.\<close>

definition string_of_score :: "int option \<Rightarrow> string" where
  "string_of_score v = (case v of None \<Rightarrow> ''undefined'' | Some n \<Rightarrow> string_of_int n)"

definition string_of_text :: "string option \<Rightarrow> string" where
  "string_of_text v = (case v of None \<Rightarrow> ''undefined'' | Some s \<Rightarrow> s)"

text \<open>\<^verbatim>\<open>a || d\<close> on the result of \<^verbatim>\<open>getAttribute\<close>: null and the empty string are falsy.\<close>

definition js_or :: "string option \<Rightarrow> string \<Rightarrow> string" where
  "js_or a d = (case a of None \<Rightarrow> d | Some s \<Rightarrow> if s = [] then d else s)"

subsection \<open>parseInt\<close>

text \<open>
  \<^verbatim>\<open>parseInt(s)\<close> with no radix argument: leading white space is skipped, then an
  optional sign, then an optional \<^verbatim>\<open>0x\<close>/\<^verbatim>\<open>0X\<close> prefix that selects radix 16
  (radix 10 otherwise), then the longest run of digits of that radix. No digit gives NaN.
\<close>

definition is_ws :: "char \<Rightarrow> bool" where
  "is_ws c \<longleftrightarrow>
     c \<in> set [CHR 0x09, CHR 0x0A, CHR 0x0B, CHR 0x0C, CHR 0x0D, CHR 0x20, CHR 0xA0]"

definition digit_val :: "char \<Rightarrow> nat" where
  "digit_val c =
     (let k = (of_char c :: nat) in
      if 48 \<le> k \<and> k \<le> 57 then k - 48
      else if 97 \<le> k \<and> k \<le> 122 then k - 87
      else if 65 \<le> k \<and> k \<le> 90 then k - 55
      else 36)"

definition is_digit :: "nat \<Rightarrow> char \<Rightarrow> bool" where
  "is_digit radix c \<longleftrightarrow> digit_val c < radix"

fun strip_sign :: "string \<Rightarrow> int \<times> string" where
  "strip_sign [] = (1, [])"
| "strip_sign (c # cs) =
     (if c = CHR ''-'' then (- 1, cs) else if c = CHR ''+'' then (1, cs) else (1, c # cs))"

fun strip_radix :: "string \<Rightarrow> nat \<times> string" where
  "strip_radix (a # b # cs) =
     (if a = CHR ''0'' \<and> (b = CHR ''x'' \<or> b = CHR ''X'') then (16, cs) else (10, a # b # cs))"
| "strip_radix cs = (10, cs)"

definition digits_value :: "nat \<Rightarrow> string \<Rightarrow> nat" where
  "digits_value radix ds = foldl (\<lambda>acc c. acc * radix + digit_val c) 0 ds"

definition parseInt :: "string \<Rightarrow> jsnum" where
  "parseInt s =
     (let (sign, s1) = strip_sign (dropWhile is_ws s);
          (radix, s2) = strip_radix s1;
          ds = takeWhile (is_digit radix) s2
      in if ds = [] then NaN else Num (sign * int (digits_value radix ds)))"

section \<open>Link elements and their annotations\<close>

text \<open>The glyphs of the tooltip and the badge (siren, warning sign, information, check mark).\<close>

datatype glyph = Siren | WarningSign | InfoSign | CheckMark

text \<open>
  The part of an anchor element the content script reads and writes: the resolved
  \<^verbatim>\<open>href\<close>, the attributes, the inline border and background, the tooltip
  (\<^verbatim>\<open>title\<close>, kept as glyph, score text and level text) and the appended badges.
\<close>

record element =
  href :: string
  attributes :: "(string \<times> string) list"
  style_border :: "string option"
  style_backgroundColor :: "string option"
  title :: "(glyph \<times> string \<times> string) option"
  badges :: "glyph list"

definition getAttribute :: "element \<Rightarrow> string \<Rightarrow> string option" where
  "getAttribute e name = map_of (attributes e) name"

fun set_attr :: "string \<Rightarrow> string \<Rightarrow> (string \<times> string) list \<Rightarrow> (string \<times> string) list" where
  "set_attr k v [] = [(k, v)]"
| "set_attr k v ((k', v') # kvs) =
     (if k' = k then (k, v) # kvs else (k', v') # set_attr k v kvs)"

definition setAttribute :: "string \<Rightarrow> string \<Rightarrow> element \<Rightarrow> element" where
  "setAttribute name v e = e\<lparr>attributes := set_attr name v (attributes e)\<rparr>"

text \<open>The fields of the scoring service's answer that the extension reads.\<close>

record api_result =
  risk_score :: "int option"
  risk_level :: "string option"
  recommendation :: "string option"

text \<open>\<^verbatim>\<open>addRiskIndicator(linkElement, result)\<close> of content.js.\<close>

definition addRiskIndicator :: "element \<Rightarrow> api_result \<Rightarrow> element" where
  "addRiskIndicator linkElement result =
     (let score = to_number (risk_score result);
          (emoji, e1) =
            (if js_ge score 70 then
               (Siren, linkElement\<lparr>style_border := Some ''2px solid #ef4444'',
                                   style_backgroundColor := Some ''#fee2e2''\<rparr>)
             else if js_ge score 40 then
               (WarningSign, linkElement\<lparr>style_border := Some ''2px solid #f59e0b'',
                                         style_backgroundColor := Some ''#fef3c7''\<rparr>)
             else if js_ge score 20 then (InfoSign, linkElement)
             else (CheckMark, linkElement));
          e2 = e1\<lparr>title := Some (emoji, string_of_score (risk_score result),
                                 string_of_text (risk_level result))\<rparr>
      in if js_ge score 40 then e2\<lparr>badges := badges e2 @ [emoji]\<rparr> else e2)"

section \<open>The scoring request\<close>

text \<open>
  What \<^verbatim>\<open>await fetch(...)\<close> followed by \<^verbatim>\<open>await response.json()\<close> can deliver:
  the fetch rejects (network error), or it resolves with a response of any status whose
  body is not JSON (\<^verbatim>\<open>json()\<close> rejects), is the JSON value \<^verbatim>\<open>null\<close>, or is
  another JSON value, of which the code reads the three fields of \<open>api_result\<close>
  (a missing field reads as \<^verbatim>\<open>undefined\<close>). \<open>Resolved ok b\<close> carries the
  \<^verbatim>\<open>response.ok\<close> flag of the status line.
\<close>

datatype body = NotJson | JsonNull | JsonValue api_result

datatype fetch_result = Rejected | Resolved bool body

text \<open>
  The ways a request fails. It throws when the fetch rejects, the body is not JSON, or the
  body is \<^verbatim>\<open>null\<close>; the \<^verbatim>\<open>catch\<close> clause runs then. It delivers no score when it
  throws or when the parsed body has no \<^verbatim>\<open>risk_score\<close>.
\<close>

definition throws :: "fetch_result \<Rightarrow> bool" where
  "throws fr =
     (case fr of
        Rejected \<Rightarrow> True
      | Resolved ok b \<Rightarrow> (case b of NotJson \<Rightarrow> True | JsonNull \<Rightarrow> True | JsonValue r \<Rightarrow> False))"

definition no_score :: "fetch_result \<Rightarrow> bool" where
  "no_score fr =
     (case fr of
        Rejected \<Rightarrow> True
      | Resolved ok b \<Rightarrow>
          (case b of NotJson \<Rightarrow> True | JsonNull \<Rightarrow> True
           | JsonValue r \<Rightarrow> risk_score r = None))"

section \<open>The content script: discovery and dispatch\<close>

text \<open>
  The module state of content.js: the \<^verbatim>\<open>analyzedLinks\<close> set (in insertion order),
  and, to observe the effects, the log of issued fetches with the simulated time in
  milliseconds at which each was issued, and the URLs whose request has not settled yet.
\<close>

record content_state =
  analyzedLinks :: "string list"
  requests :: "(nat \<times> string) list"
  in_flight :: "string list"

definition initial_state :: content_state where
  "initial_state = \<lparr>analyzedLinks = [], requests = [], in_flight = []\<rparr>"

definition startsWith :: "string \<Rightarrow> string \<Rightarrow> bool" where
  "startsWith s p \<longleftrightarrow> take (length p) s = p"

definition qualifies :: "string \<Rightarrow> bool" where
  "qualifies url \<longleftrightarrow> startsWith url ''http://'' \<or> startsWith url ''https://''"

text \<open>
  \<^verbatim>\<open>analyzeLinkElement(linkElement)\<close> is an async function. Its first part, up to and
  including the call of \<^verbatim>\<open>fetch\<close>, runs synchronously when it is called (at time
  \<open>now\<close>); the rest runs when the request has settled.
\<close>

definition analyzeLinkElement_start :: "nat \<Rightarrow> element \<Rightarrow> content_state \<Rightarrow> content_state" where
  "analyzeLinkElement_start now linkElement st =
     (let url = href linkElement in
      if url \<in> set (analyzedLinks st) then st
      else if \<not> startsWith url ''http://'' \<and> \<not> startsWith url ''https://'' then st
      else st\<lparr>analyzedLinks := analyzedLinks st @ [url],
              requests := requests st @ [(now, url)],
              in_flight := in_flight st @ [url]\<rparr>)"

text \<open>
  The second part, on the element and the console: the \<^verbatim>\<open>try\<close> body after the
  awaits, or the \<^verbatim>\<open>catch\<close> clause. Reading \<^verbatim>\<open>result.risk_score\<close> of \<^verbatim>\<open>null\<close>
  throws in the first line of \<^verbatim>\<open>addRiskIndicator\<close>.
\<close>

definition analyzeLinkElement_resume ::
    "fetch_result \<Rightarrow> element \<times> string list \<Rightarrow> element \<times> string list" where
  "analyzeLinkElement_resume fr ec =
     (case ec of (linkElement, console) \<Rightarrow>
        (case fr of
           Rejected \<Rightarrow> (linkElement, console @ [''Link analysis failed:''])
         | Resolved ok b \<Rightarrow>
             (case b of
                NotJson \<Rightarrow> (linkElement, console @ [''Link analysis failed:''])
              | JsonNull \<Rightarrow> (linkElement, console @ [''Link analysis failed:''])
              | JsonValue result \<Rightarrow>
                  (setAttribute ''data-risk-level'' (string_of_text (risk_level result))
                     (setAttribute ''data-risk-score'' (string_of_score (risk_score result))
                        (addRiskIndicator linkElement result)),
                   console))))"

subsection \<open>The document\<close>

text \<open>
  A node is an element, with its upper-case tag name, its link state when it carries an
  \<^verbatim>\<open>href\<close> attribute, and its children, or any other kind of node (text, comment).
\<close>

datatype node = Other | Elem string "element option" "node list"

text \<open>The \<^verbatim>\<open>a[href]\<close> elements of a subtree, its root included, in document order.\<close>

fun subtree_links :: "node \<Rightarrow> element list" where
  "subtree_links Other = []"
| "subtree_links (Elem tag l cs) =
     (if tag = ''A'' then (case l of None \<Rightarrow> [] | Some e \<Rightarrow> [e]) else [])
     @ concat (map subtree_links cs)"

text \<open>\<^verbatim>\<open>node.querySelectorAll('a[href]')\<close>: the matching descendants, without the node.\<close>

definition querySelectorAll_links :: "node \<Rightarrow> element list" where
  "querySelectorAll_links n =
     (case n of Other \<Rightarrow> [] | Elem tag l cs \<Rightarrow> concat (map subtree_links cs))"

subsection \<open>The initial scan\<close>

text \<open>
  \<^verbatim>\<open>scanAllLinks()\<close> sets one timer per link: the result is the list of
  (delay in ms, link), in the order the timers are set. The links are those of the whole
  document, which \<^verbatim>\<open>document.querySelectorAll\<close> returns in document order.
\<close>

definition scanAllLinks :: "element list \<Rightarrow> (nat \<times> element) list" where
  "scanAllLinks links = map (\<lambda>(index, link). (index * 100, link)) (enumerate 0 links)"

text \<open>
  The timers of a scan started at \<open>t0\<close> expire in the order of their delays, which is
  the order they were set in; in simulated time each callback runs at \<open>t0 + delay\<close>.
\<close>

definition fire_timers :: "nat \<Rightarrow> (nat \<times> element) list \<Rightarrow> content_state \<Rightarrow> content_state" where
  "fire_timers t0 timers st =
     fold (\<lambda>(delay, link). analyzeLinkElement_start (t0 + delay) link) timers st"

definition initial_scan :: "nat \<Rightarrow> element list \<Rightarrow> content_state \<Rightarrow> content_state" where
  "initial_scan t0 links st = fire_timers t0 (scanAllLinks links) st"

text \<open>
  The handler of the \<^verbatim>\<open>rescanPage\<close> message: it clears the set and scans again; the
  result is the new state and the timers set.
\<close>

definition rescanPage :: "element list \<Rightarrow> content_state \<Rightarrow> content_state \<times> (nat \<times> element) list" where
  "rescanPage links st = (st\<lparr>analyzedLinks := []\<rparr>, scanAllLinks links)"

subsection \<open>The mutation watcher\<close>

text \<open>
  The callback of the \<^verbatim>\<open>MutationObserver\<close>, run at time \<open>now\<close> on a list of mutation
  records, each given by its \<^verbatim>\<open>addedNodes\<close>.
\<close>

definition on_added_node :: "nat \<Rightarrow> node \<Rightarrow> content_state \<Rightarrow> content_state" where
  "on_added_node now n st =
     (case n of
        Other \<Rightarrow> st
      | Elem tag l cs \<Rightarrow>
          (let st1 =
                 (if tag = ''A'' \<and> (case l of None \<Rightarrow> False | Some e \<Rightarrow> href e \<noteq> [])
                  then (case l of None \<Rightarrow> st | Some e \<Rightarrow> analyzeLinkElement_start now e st)
                  else st)
           in fold (analyzeLinkElement_start now) (querySelectorAll_links n) st1))"

definition observer_callback :: "nat \<Rightarrow> node list list \<Rightarrow> content_state \<Rightarrow> content_state" where
  "observer_callback now mutations st =
     fold (\<lambda>addedNodes. fold (on_added_node now) addedNodes) mutations st"

subsection \<open>Interleavings\<close>

text \<open>
  The page runs one callback at a time. A run of the content script is a sequence of
  tasks: a call of \<^verbatim>\<open>analyzeLinkElement\<close> on a link at some time (from a scan timer or
  from the observer), the settling of the request for a URL, or the handling of a
  \<^verbatim>\<open>rescanPage\<close> message on a document with the given links. The timers a rescan sets
  expire later, as calls of their own.
\<close>

datatype task = Call nat element | Settle string | Rescan "element list"

fun step :: "task \<Rightarrow> content_state \<Rightarrow> content_state" where
  "step (Call now link) st = analyzeLinkElement_start now link st"
| "step (Settle url) st = st\<lparr>in_flight := remove1 url (in_flight st)\<rparr>"
| "step (Rescan links) st = fst (rescanPage links st)"

definition run :: "task list \<Rightarrow> content_state \<Rightarrow> content_state" where
  "run ts st = fold step ts st"

text \<open>Whether a run holds a call of \<^verbatim>\<open>analyzeLinkElement\<close> on a link to the URL.\<close>

fun submitted :: "task list \<Rightarrow> string \<Rightarrow> bool" where
  "submitted [] url = False"
| "submitted (Call now link # ts) url = (href link = url \<or> submitted ts url)"
| "submitted (Settle u # ts) url = submitted ts url"
| "submitted (Rescan links # ts) url = submitted ts url"

text \<open>Whether a run holds no \<^verbatim>\<open>rescanPage\<close> message.\<close>

fun rescan_free :: "task list \<Rightarrow> bool" where
  "rescan_free [] = True"
| "rescan_free (Rescan links # ts) = False"
| "rescan_free (Call now link # ts) = rescan_free ts"
| "rescan_free (Settle u # ts) = rescan_free ts"

text \<open>
  The epochs of a run: the stretches of tasks between two \<^verbatim>\<open>rescanPage\<close> messages, the
  first from the page load and the last to the end of the run.
\<close>

fun epochs :: "task list \<Rightarrow> task list list" where
  "epochs [] = [[]]"
| "epochs (Rescan links # ts) = [] # epochs ts"
| "epochs (Call now link # ts) =
     (case epochs ts of [] \<Rightarrow> [[Call now link]] | e # es \<Rightarrow> (Call now link # e) # es)"
| "epochs (Settle u # ts) =
     (case epochs ts of [] \<Rightarrow> [[Settle u]] | e # es \<Rightarrow> (Settle u # e) # es)"

text \<open>
  The positions of a scanned document whose link makes the scan issue a request: the
  link's URL is an http(s) URL, it was not analysed before the scan, and no earlier link
  of the document has the same URL.
\<close>

definition requested_by_scan :: "content_state \<Rightarrow> element list \<Rightarrow> nat \<Rightarrow> bool" where
  "requested_by_scan st links i \<longleftrightarrow>
     qualifies (href (links ! i)) \<and> href (links ! i) \<notin> set (analyzedLinks st) \<and>
     href (links ! i) \<notin> set (map href (take i links))"

text \<open>
  A step from \<open>st\<close> to \<open>st'\<close> that only issues requests, all at time \<open>now\<close>, and
  records exactly their URLs as analysed.
\<close>

definition dispatched_at :: "nat \<Rightarrow> content_state \<Rightarrow> content_state \<Rightarrow> bool" where
  "dispatched_at now st st' \<longleftrightarrow>
     (\<exists>new. requests st' = requests st @ new \<and> list_all (\<lambda>r. fst r = now) new \<and>
            set (analyzedLinks st') = set (analyzedLinks st) \<union> snd ` set new)"

text \<open>
  The shape of the state that the dispatch step maintains: the request log lists the
  analysed URLs, each once and each an http(s) URL, and the outstanding requests are
  distinct analysed URLs.
\<close>

definition coherent :: "content_state \<Rightarrow> bool" where
  "coherent st \<longleftrightarrow>
     map snd (requests st) = analyzedLinks st \<and> distinct (analyzedLinks st) \<and>
     list_all qualifies (analyzedLinks st) \<and>
     distinct (in_flight st) \<and> list_all (\<lambda>u. u \<in> set (analyzedLinks st)) (in_flight st)"

section \<open>The navigation gate\<close>

text \<open>
  \<^verbatim>\<open>showWarningModal\<close> builds the modal by assigning a template string to
  \<^verbatim>\<open>innerHTML\<close>, with the score, the level and the URL put into it as they are, so
  the level and the URL are read as markup. An item is what such a string contributes to
  the modal: character data, an anchor with its \<^verbatim>\<open>href\<close> and its text, a button with
  its \<^verbatim>\<open>id\<close> and its label, or markup that this model does not interpret.
\<close>

datatype item = Text string | Anchor string string | Button string string | Opaque string

text \<open>
  The markup this model reads. A string without \<^verbatim>\<open><\<close> is character data. Two forms of
  a whole string are recognised as one element, both with an unquoted attribute value:
  \<^verbatim>\<open><a href=U>T</a>\<close> and \<^verbatim>\<open><button id=I>T</button>\<close>, where the value is not empty and
  holds none of the characters that end or are refused in an unquoted value, and the text
  holds neither \<^verbatim>\<open><\<close> nor \<^verbatim>\<open>&\<close>. Every other string with a \<^verbatim>\<open><\<close> is left
  uninterpreted. The \<^verbatim>\<open>href\<close> property of a recognised anchor is taken to be its
  attribute value, as it is for an absolute URL in normal form.
\<close>

definition strip_prefix :: "string \<Rightarrow> string \<Rightarrow> string option" where
  "strip_prefix p s = (if take (length p) s = p then Some (drop (length p) s) else None)"

definition unquoted_char :: "char \<Rightarrow> bool" where
  "unquoted_char c \<longleftrightarrow>
     c \<notin> set [CHR 0x09, CHR 0x0A, CHR 0x0C, CHR 0x0D, CHR 0x20, CHR 0x22, CHR 0x27,
               CHR ''='', CHR ''<'', CHR ''>'', CHR 0x60, CHR ''&'']"

definition text_char :: "char \<Rightarrow> bool" where
  "text_char c \<longleftrightarrow> c \<noteq> CHR ''<'' \<and> c \<noteq> CHR ''&''"

definition parse_element :: "string \<Rightarrow> string \<Rightarrow> string \<Rightarrow> (string \<times> string) option" where
  "parse_element opening closing s =
     (case strip_prefix opening s of
        None \<Rightarrow> None
      | Some r \<Rightarrow>
          (let v = takeWhile unquoted_char r in
           case strip_prefix ''>'' (drop (length v) r) of
             None \<Rightarrow> None
           | Some r' \<Rightarrow>
               (let t = takeWhile text_char r' in
                if v \<noteq> [] \<and> drop (length t) r' = closing then Some (v, t) else None)))"

definition parse_html :: "string \<Rightarrow> item list" where
  "parse_html s =
     (if CHR ''<'' \<notin> set s then [Text s]
      else case parse_element ''<a href='' ''</a>'' s of
             Some (u, t) \<Rightarrow> [Anchor u t]
           | None \<Rightarrow>
               (case parse_element ''<button id='' ''</button>'' s of
                  Some (i, t) \<Rightarrow> [Button i t]
                | None \<Rightarrow> [Opaque s]))"

text \<open>
  The warning modal: the arguments it was built from, and what follows the score in it,
  in document order: the items of the level, the items of the URL, and the two buttons
  of the template.
\<close>

record modal =
  modal_id :: nat
  shown_url :: string
  shown_score :: jsnum
  shown_level :: string
  items :: "item list"

text \<open>
  What a listener is registered on: an element of the page's own, an item of a modal
  (modal, position), or an element this model cannot name because it lies in or behind
  uninterpreted markup. What the listeners of \<^verbatim>\<open>showWarningModal\<close> do when they run:
  remove a modal, or acknowledge the report and remove it.
\<close>

datatype target = PageElement string | ModalItem nat nat | Unnamed

datatype action = RemoveModal nat | ReportAndRemove nat

text \<open>
  What the user sees and where the tab is: the current location, the ids that elements
  of the page's own carry (all of them before the modals, which are appended to the end
  of the body), the open modals in document order, the number of modals created so far,
  the listeners registered by \<^verbatim>\<open>showWarningModal\<close> in the order of registration, the
  \<^verbatim>\<open>alert\<close> boxes shown and the \<^verbatim>\<open>confirm\<close> prompts shown (with the score and
  level of their message).
\<close>

record browser =
  location :: string
  page_ids :: "string list"
  modals :: "modal list"
  created :: nat
  listeners :: "(target \<times> action) list"
  alerts :: "string list"
  confirms :: "(jsnum \<times> string) list"

text \<open>
  \<^verbatim>\<open>document.getElementById(i)\<close>: the first element with the id in document order.
  Past uninterpreted markup the answer is an element the model cannot name.
\<close>

fun find_in_items :: "string \<Rightarrow> nat \<Rightarrow> nat \<Rightarrow> item list \<Rightarrow> target option" where
  "find_in_items i m k [] = None"
| "find_in_items i m k (Button j t # xs) =
     (if j = i then Some (ModalItem m k) else find_in_items i m (Suc k) xs)"
| "find_in_items i m k (Opaque s # xs) = Some Unnamed"
| "find_in_items i m k (x # xs) = find_in_items i m (Suc k) xs"

fun find_in_modals :: "string \<Rightarrow> modal list \<Rightarrow> target option" where
  "find_in_modals i [] = None"
| "find_in_modals i (m # ms) =
     (case find_in_items i (modal_id m) 0 (items m) of
        Some t \<Rightarrow> Some t
      | None \<Rightarrow> find_in_modals i ms)"

definition getElementById :: "browser \<Rightarrow> string \<Rightarrow> target option" where
  "getElementById br i =
     (if i \<in> set (page_ids br) then Some (PageElement i) else find_in_modals i (modals br))"

text \<open>
  \<^verbatim>\<open>showWarningModal(url, score, level)\<close>: the modal is appended to the body, then each
  of the two listeners is registered on what \<^verbatim>\<open>getElementById\<close> returns. Calling
  \<^verbatim>\<open>addEventListener\<close> on \<^verbatim>\<open>null\<close> throws, which ends the function there.
\<close>

definition showWarningModal :: "string \<Rightarrow> jsnum \<Rightarrow> string \<Rightarrow> browser \<Rightarrow> browser" where
  "showWarningModal url score level br =
     (let m = \<lparr>modal_id = created br, shown_url = url, shown_score = score,
                shown_level = level,
                items = parse_html level @ parse_html url @
                  [Button ''closeWarning'' ''Close'', Button ''reportThreat'' ''Report Threat'']\<rparr>;
          br1 = br\<lparr>modals := modals br @ [m], created := created br + 1\<rparr>
      in case getElementById br1 ''closeWarning'' of
           None \<Rightarrow> br1
         | Some c \<Rightarrow>
             (let br2 = br1\<lparr>listeners := listeners br1 @ [(c, RemoveModal (modal_id m))]\<rparr>
              in case getElementById br2 ''reportThreat'' of
                   None \<Rightarrow> br2
                 | Some r \<Rightarrow>
                     br2\<lparr>listeners := listeners br2 @ [(r, ReportAndRemove (modal_id m))]\<rparr>))"

text \<open>\<^verbatim>\<open>modal.remove()\<close> on the modal with the given identifier.\<close>

definition remove_modal :: "nat \<Rightarrow> browser \<Rightarrow> browser" where
  "remove_modal i br = br\<lparr>modals := filter (\<lambda>m. modal_id m \<noteq> i) (modals br)\<rparr>"

fun run_action :: "action \<Rightarrow> browser \<Rightarrow> browser" where
  "run_action (RemoveModal i) br = remove_modal i br"
| "run_action (ReportAndRemove i) br =
     remove_modal i
       (br\<lparr>alerts := alerts br @ [''Thank you for reporting! This threat has been logged.'']\<rparr>)"

text \<open>
  The click event as the handler sees it: the link \<^verbatim>\<open>event.target.closest('a[href]')\<close>
  finds, if any, and the two flags that \<^verbatim>\<open>preventDefault\<close> and
  \<^verbatim>\<open>stopPropagation\<close> set.
\<close>

record click_event =
  target_link :: "element option"
  defaultPrevented :: bool
  propagationStopped :: bool

text \<open>
  \<^verbatim>\<open>handleLinkClick(event)\<close> of content.js; \<open>proceed\<close> is the user's answer to the
  \<^verbatim>\<open>confirm\<close> prompt, should one be shown.
\<close>

definition read_riskScore :: "element \<Rightarrow> jsnum" where
  "read_riskScore link = parseInt (js_or (getAttribute link ''data-risk-score'') ''0'')"

definition read_riskLevel :: "element \<Rightarrow> string" where
  "read_riskLevel link = js_or (getAttribute link ''data-risk-level'') ''UNKNOWN''"

definition handleLinkClick :: "bool \<Rightarrow> click_event \<Rightarrow> browser \<Rightarrow> click_event \<times> browser" where
  "handleLinkClick proceed event br =
     (case target_link event of
        None \<Rightarrow> (event, br)
      | Some link \<Rightarrow>
          (let riskScore = read_riskScore link;
               riskLevel = read_riskLevel link
           in if js_ge riskScore 70 then
                (event\<lparr>defaultPrevented := True, propagationStopped := True\<rparr>,
                 showWarningModal (href link) riskScore riskLevel br)
              else if js_ge riskScore 40 then
                (let br' = br\<lparr>confirms := confirms br @ [(riskScore, riskLevel)]\<rparr>
                 in if \<not> proceed
                    then (event\<lparr>defaultPrevented := True, propagationStopped := True\<rparr>, br')
                    else (event, br'))
              else (event, br)))"

text \<open>
  A click on a link: the handler runs first (it is registered on the document for the
  capture phase), then the default action, the navigation to the link's target, unless
  it was prevented.
\<close>

definition click :: "bool \<Rightarrow> element \<Rightarrow> browser \<Rightarrow> browser" where
  "click proceed link br =
     (case handleLinkClick proceed
             \<lparr>target_link = Some link, defaultPrevented = False, propagationStopped = False\<rparr> br
      of (event, br') \<Rightarrow>
           if defaultPrevented event then br' else br'\<lparr>location := href link\<rparr>)"

text \<open>
  The user clicks item \<open>k\<close> of the open modal \<open>i\<close>. Character data does nothing. A
  button runs the listeners registered on it, in order (the document's click handler,
  which runs first, finds no link around a button of the modal). An anchor is a link
  like any other: the click goes through \<^verbatim>\<open>handleLinkClick\<close> and then to the default
  action; the anchors this model recognises carry no attribute but \<^verbatim>\<open>href\<close>. What a
  click on uninterpreted markup does is not determined here.
\<close>

definition press :: "bool \<Rightarrow> nat \<Rightarrow> nat \<Rightarrow> browser \<Rightarrow> browser option" where
  "press proceed i k br =
     (case find (\<lambda>m. modal_id m = i) (modals br) of
        None \<Rightarrow> Some br
      | Some m \<Rightarrow>
          (if length (items m) \<le> k then Some br
           else case items m ! k of
                  Text s \<Rightarrow> Some br
                | Button j t \<Rightarrow>
                    Some (fold run_action
                            (map snd (filter (\<lambda>l. fst l = ModalItem i k) (listeners br))) br)
                | Anchor u t \<Rightarrow>
                    Some (click proceed
                            \<lparr>href = u, attributes = [], style_border = None,
                             style_backgroundColor = None, title = None, badges = []\<rparr> br)
                | Opaque s \<Rightarrow> None))"

text \<open>
  The decision the handler took, read off what it did: a new modal is a denial, a new
  prompt is a warning, and nothing shown is the plain pass.
\<close>

datatype decision = ALLOW | WARN | DENY

definition decision_of :: "browser \<Rightarrow> click_event \<times> browser \<Rightarrow> decision" where
  "decision_of br r =
     (if created (snd r) \<noteq> created br then DENY
      else if length (confirms (snd r)) \<noteq> length (confirms br) then WARN
      else ALLOW)"

section \<open>The background worker\<close>










section \<open>Sample data\<close>

text \<open>
  Links nobody has annotated (two shop links and a mail link), answers of the scoring
  service, and a quiet tab.
\<close>

definition plain_link :: element where
  "plain_link = \<lparr>href = ''https://shop.example/pay'', attributes = [], style_border = None,
     style_backgroundColor = None, title = None, badges = []\<rparr>"

definition answer :: "int \<Rightarrow> string \<Rightarrow> api_result" where
  "answer s l = \<lparr>risk_score = Some s, risk_level = Some l, recommendation = Some ''Be careful''\<rparr>"

definition error_answer :: api_result where
  "error_answer = \<lparr>risk_score = None, risk_level = None, recommendation = None\<rparr>"

definition annotate :: "api_result \<Rightarrow> element \<Rightarrow> element" where
  "annotate r e = fst (analyzeLinkElement_resume (Resolved True (JsonValue r)) (e, []))"

definition mail_link :: element where
  "mail_link = \<lparr>href = ''mailto:desk@news.example'', attributes = [], style_border = None,
     style_backgroundColor = None, title = None, badges = []\<rparr>"

definition cart_link :: element where
  "cart_link = \<lparr>href = ''http://shop.example/cart'', attributes = [], style_border = None,
     style_backgroundColor = None, title = None, badges = []\<rparr>"


definition fresh_event :: "element \<Rightarrow> click_event" where
  "fresh_event link =
     \<lparr>target_link = Some link, defaultPrevented = False, propagationStopped = False\<rparr>"

definition quiet_browser :: browser where
  "quiet_browser = \<lparr>location = ''https://news.example/'', page_ids = [], modals = [],
     created = 0, listeners = [], alerts = [], confirms = []\<rparr>"

text \<open>
  A link to the shop whose annotation has a score of 85 and, as its level, the markup of
  a link to the same page.
\<close>

definition bait_link :: element where
  "bait_link = \<lparr>href = ''https://shop.example/pay'',
     attributes = [(''data-risk-score'', ''85''),
                   (''data-risk-level'', ''<a href=https://shop.example/pay>Continue</a>'')],
     style_border = None, style_backgroundColor = None, title = None, badges = []\<rparr>"

section \<open>Properties\<close>

subsection \<open>Decimal strings read back\<close>

lemma digit_val_digit_char: "d < 10 \<Longrightarrow> digit_val (digit_char d) = d"
proof -
  assume "d < 10"
  then have "d \<in> {0,1,2,3,4,5,6,7,8,9}" by auto
  then show ?thesis
    by (auto simp: digit_val_def digit_char_def)
qed

lemma string_of_nat_digits: "c \<in> set (string_of_nat n) \<Longrightarrow> digit_val c < 10"
proof (induction n arbitrary: c rule: string_of_nat.induct)
  case (1 n)
  show ?case
  proof (cases "n < 10")
    case True
    with "1.prems" show ?thesis
      by (simp add: string_of_nat.simps [of n] digit_val_digit_char)
  next
    case False
    with "1.prems" "1.IH" show ?thesis
      by (auto simp: string_of_nat.simps [of n] digit_val_digit_char)
  qed
qed

lemma string_of_nat_nonempty: "string_of_nat n \<noteq> []"
  by (subst string_of_nat.simps) simp

lemma digits_value_snoc:
  "digits_value r (cs @ [c]) = digits_value r cs * r + digit_val c"
  by (simp add: digits_value_def)

lemma digits_value_string_of_nat: "digits_value 10 (string_of_nat n) = n"
proof (induction n rule: string_of_nat.induct)
  case (1 n)
  show ?case
  proof (cases "n < 10")
    case True
    then show ?thesis
      by (simp add: string_of_nat.simps [of n] digits_value_def digit_val_digit_char)
  next
    case False
    with "1.IH" show ?thesis
      by (simp add: string_of_nat.simps [of n] digits_value_snoc digit_val_digit_char)
  qed
qed

lemma decimal_not_ws: "digit_val c < 10 \<Longrightarrow> \<not> is_ws c"
  by (auto simp: is_ws_def digit_val_def)

lemma decimal_not_sign: "digit_val c < 10 \<Longrightarrow> c \<noteq> CHR ''-'' \<and> c \<noteq> CHR ''+'' \<and> c \<noteq> CHR ''x'' \<and> c \<noteq> CHR ''X''"
  by (auto simp: digit_val_def)

lemma parseInt_decimal:
  assumes "cs \<noteq> []" and "\<forall>c \<in> set cs. digit_val c < 10"
  shows "parseInt cs = Num (int (digits_value 10 cs))"
    and "parseInt (CHR ''-'' # cs) = Num (- int (digits_value 10 cs))"
proof -
  obtain a as where cs: "cs = a # as" using assms(1) by (cases cs) auto
  have a: "digit_val a < 10" using assms(2) cs by simp
  have dw: "dropWhile is_ws cs = cs" using a cs by (simp add: decimal_not_ws)
  have ss: "strip_sign cs = (1, cs)" using a cs decimal_not_sign [of a] by simp
  have sr: "strip_radix cs = (10, cs)"
  proof (cases as)
    case Nil then show ?thesis using cs by simp
  next
    case (Cons b bs)
    then have "digit_val b < 10" using assms(2) cs by simp
    then show ?thesis using cs Cons decimal_not_sign [of b] by simp
  qed
  have tw: "takeWhile (is_digit 10) cs = cs"
    using assms(2) by (simp add: is_digit_def)
  show "parseInt cs = Num (int (digits_value 10 cs))"
    using assms(1) by (simp add: parseInt_def dw ss sr tw)
  have "\<not> is_ws (CHR ''-'')" by (simp add: is_ws_def)
  then show "parseInt (CHR ''-'' # cs) = Num (- int (digits_value 10 cs))"
    using assms(1) by (simp add: parseInt_def sr tw)
qed

lemma parseInt_string_of_int: "parseInt (string_of_int n) = Num n"
  by (simp add: string_of_int_def parseInt_decimal string_of_nat_nonempty
      string_of_nat_digits digits_value_string_of_nat)

subsection \<open>Attributes and annotation\<close>

lemma map_of_set_attr: "map_of (set_attr k v kvs) k' = (if k' = k then Some v else map_of kvs k')"
  by (induction kvs) auto

lemma getAttribute_setAttribute:
  "getAttribute (setAttribute k v e) k' = (if k' = k then Some v else getAttribute e k')"
  by (simp add: getAttribute_def setAttribute_def map_of_set_attr)

lemma attributes_addRiskIndicator: "attributes (addRiskIndicator e r) = attributes e"
  by (simp add: addRiskIndicator_def Let_def)

lemma href_addRiskIndicator: "href (addRiskIndicator e r) = href e"
  by (simp add: addRiskIndicator_def Let_def)

lemma resume_scored:
  "analyzeLinkElement_resume (Resolved ok (JsonValue r)) (e, con) =
     (setAttribute ''data-risk-level'' (string_of_text (risk_level r))
        (setAttribute ''data-risk-score'' (string_of_score (risk_score r))
           (addRiskIndicator e r)), con)"
  by (simp add: analyzeLinkElement_resume_def)

lemma score_attribute_annotate:
  "getAttribute (annotate r e) ''data-risk-score'' = Some (string_of_score (risk_score r))"
  by (simp add: annotate_def resume_scored getAttribute_setAttribute)

lemma level_attribute_annotate:
  "getAttribute (annotate r e) ''data-risk-level'' = Some (string_of_text (risk_level r))"
  by (simp add: annotate_def resume_scored getAttribute_setAttribute)

lemma href_annotate: "href (annotate r e) = href e"
  by (simp add: annotate_def resume_scored setAttribute_def href_addRiskIndicator)

lemma string_of_int_nonempty: "string_of_int n \<noteq> []"
  by (simp add: string_of_int_def string_of_nat_nonempty)

lemma parseInt_zero: "parseInt ''0'' = Num 0"
  by (simp add: parseInt_def is_ws_def is_digit_def digit_val_def digits_value_def)

lemma parseInt_undefined: "parseInt ''undefined'' = NaN"
  by (simp add: parseInt_def is_ws_def is_digit_def digit_val_def)

lemma read_riskScore_absent:
  "getAttribute link ''data-risk-score'' = None \<Longrightarrow> read_riskScore link = Num 0"
  by (simp add: read_riskScore_def js_or_def parseInt_zero)

lemma read_riskScore_written:
  "getAttribute link ''data-risk-score'' = Some (string_of_int s) \<Longrightarrow> read_riskScore link = Num s"
  by (simp add: read_riskScore_def js_or_def string_of_int_nonempty parseInt_string_of_int)

lemma read_riskScore_annotate: "read_riskScore (annotate (answer s l) e) = Num s"
  by (rule read_riskScore_written)
     (simp add: score_attribute_annotate answer_def string_of_score_def)

lemma read_riskLevel_annotate: "l \<noteq> [] \<Longrightarrow> read_riskLevel (annotate (answer s l) e) = l"
  by (simp add: read_riskLevel_def level_attribute_annotate answer_def string_of_text_def
      js_or_def)

subsection \<open>The click handler, branch by branch\<close>

lemma created_showWarningModal: "created (showWarningModal u s l br) = created br + 1"
  by (simp add: showWarningModal_def Let_def split: option.split)

lemma confirms_showWarningModal: "confirms (showWarningModal u s l br) = confirms br"
  by (simp add: showWarningModal_def Let_def split: option.split)

lemma location_showWarningModal: "location (showWarningModal u s l br) = location br"
  by (simp add: showWarningModal_def Let_def split: option.split)

lemma alerts_showWarningModal: "alerts (showWarningModal u s l br) = alerts br"
  by (simp add: showWarningModal_def Let_def split: option.split)

lemma handleLinkClick_num:
  assumes "target_link event = Some link" and "read_riskScore link = Num n"
  shows "handleLinkClick proceed event br =
     (if 70 \<le> n then
        (event\<lparr>defaultPrevented := True, propagationStopped := True\<rparr>,
         showWarningModal (href link) (Num n) (read_riskLevel link) br)
      else if 40 \<le> n then
        (if proceed then event else event\<lparr>defaultPrevented := True, propagationStopped := True\<rparr>,
         br\<lparr>confirms := confirms br @ [(Num n, read_riskLevel link)]\<rparr>)
      else (event, br))"
  using assms by (simp add: handleLinkClick_def Let_def js_ge_def)

lemma handleLinkClick_NaN:
  assumes "target_link event = Some link" and "read_riskScore link = NaN"
  shows "handleLinkClick proceed event br = (event, br)"
  using assms by (simp add: handleLinkClick_def Let_def js_ge_def)

lemma click_num:
  assumes "read_riskScore link = Num n"
  shows "click proceed link br =
     (if 70 \<le> n then showWarningModal (href link) (Num n) (read_riskLevel link) br
      else if 40 \<le> n then
        (if proceed
         then br\<lparr>confirms := confirms br @ [(Num n, read_riskLevel link)], location := href link\<rparr>
         else br\<lparr>confirms := confirms br @ [(Num n, read_riskLevel link)]\<rparr>)
      else br\<lparr>location := href link\<rparr>)"
  by (simp add: click_def handleLinkClick_num [OF _ assms])

lemma click_NaN:
  assumes "read_riskScore link = NaN"
  shows "click proceed link br = br\<lparr>location := href link\<rparr>"
  by (simp add: click_def handleLinkClick_NaN [OF _ assms])

lemma string_of_int_85: "string_of_int 85 = ''85''"
  by (simp add: string_of_int_def string_of_nat.simps digit_char_def)

lemma string_of_int_55: "string_of_int 55 = ''55''"
  by (simp add: string_of_int_def string_of_nat.simps digit_char_def)

text \<open>
  C1. The gate's classification is total over scores and their absence: for every
  integer score \<open>s\<close> from 0 to 100 that the annotation of the clicked link holds, the
  click is a DENY exactly when \<open>s \<ge> 70\<close>, a WARN exactly when \<open>40 \<le> s < 70\<close> and an
  ALLOW otherwise, and the ALLOW leaves the event and the page as they were; with no
  score attribute on the link the click is an ALLOW as well.
\<close>

theorem gate_classification_total:
  fixes s :: int
  assumes "target_link event = Some link"
  shows "(0 \<le> s \<and> s \<le> 100 \<and> getAttribute link ''data-risk-score'' = Some (string_of_int s) \<longrightarrow>
           (decision_of br (handleLinkClick proceed event br) = DENY \<longleftrightarrow> 70 \<le> s) \<and>
           (decision_of br (handleLinkClick proceed event br) = WARN \<longleftrightarrow> 40 \<le> s \<and> s < 70) \<and>
           (decision_of br (handleLinkClick proceed event br) = ALLOW \<longleftrightarrow> s < 40) \<and>
           (s < 40 \<longrightarrow> handleLinkClick proceed event br = (event, br))) \<and>
         (getAttribute link ''data-risk-score'' = None \<longrightarrow>
           decision_of br (handleLinkClick proceed event br) = ALLOW \<and>
           handleLinkClick proceed event br = (event, br))"
proof (intro conjI impI)
  assume "getAttribute link ''data-risk-score'' = None"
  then have "read_riskScore link = Num 0"
    by (rule read_riskScore_absent)
  from handleLinkClick_num [OF assms this]
  show "handleLinkClick proceed event br = (event, br)" by simp
  then show "decision_of br (handleLinkClick proceed event br) = ALLOW"
    by (simp add: decision_of_def)
next
  assume "0 \<le> s \<and> s \<le> 100 \<and> getAttribute link ''data-risk-score'' = Some (string_of_int s)"
  then have "read_riskScore link = Num s"
    by (simp add: read_riskScore_written)
  note h = handleLinkClick_num [OF assms this, of proceed br]
  show "decision_of br (handleLinkClick proceed event br) = DENY \<longleftrightarrow> 70 \<le> s"
    by (simp add: h decision_of_def created_showWarningModal)
  show "decision_of br (handleLinkClick proceed event br) = WARN \<longleftrightarrow> 40 \<le> s \<and> s < 70"
    by (auto simp: h decision_of_def created_showWarningModal)
  show "decision_of br (handleLinkClick proceed event br) = ALLOW \<longleftrightarrow> s < 40"
    by (auto simp: h decision_of_def created_showWarningModal)
  assume "s < 40"
  then show "handleLinkClick proceed event br = (event, br)"
    by (simp add: h)
qed

theorem gate_classification_total_witness:
  "target_link (fresh_event (annotate (answer 85 ''HIGH RISK'') plain_link))
     = Some (annotate (answer 85 ''HIGH RISK'') plain_link) \<and>
   (0::int) \<le> 85 \<and> (85::int) \<le> 100 \<and>
   getAttribute (annotate (answer 85 ''HIGH RISK'') plain_link) ''data-risk-score''
     = Some (string_of_int 85) \<and>
   decision_of quiet_browser
     (handleLinkClick True (fresh_event (annotate (answer 85 ''HIGH RISK'') plain_link))
        quiet_browser) = DENY \<and>
   target_link (fresh_event plain_link) = Some plain_link \<and>
   getAttribute plain_link ''data-risk-score'' = None \<and>
   handleLinkClick True (fresh_event plain_link) quiet_browser
     = (fresh_event plain_link, quiet_browser)"
proof -
  let ?hot = "annotate (answer 85 ''HIGH RISK'') plain_link"
  have t1: "target_link (fresh_event ?hot) = Some ?hot"
    and t2: "target_link (fresh_event plain_link) = Some plain_link"
    by (simp_all add: fresh_event_def)
  have a1: "getAttribute ?hot ''data-risk-score'' = Some (string_of_int 85)"
    by (simp add: score_attribute_annotate answer_def string_of_score_def)
  have a2: "getAttribute plain_link ''data-risk-score'' = None"
    by (simp add: getAttribute_def plain_link_def)
  show ?thesis
    using gate_classification_total [OF t1, of 85 quiet_browser True]
          gate_classification_total [OF t2, of 0 quiet_browser True] t1 t2 a1 a2
    by simp
qed

text \<open>
  C10. A click on a link whose stored \<^verbatim>\<open>data-risk-score\<close> does not parse as a number
  (\<^verbatim>\<open>parseInt\<close> gives NaN) is not intercepted: the handler changes neither the event
  nor the page, no modal and no prompt appear, and the navigation takes place.
\<close>

theorem unparsable_score_fails_open:
  assumes "target_link event = Some link"
    and "getAttribute link ''data-risk-score'' = Some a"
    and "parseInt a = NaN"
  shows "handleLinkClick proceed event br = (event, br) \<and>
         click proceed link br = br\<lparr>location := href link\<rparr>"
proof (cases "a = []")
  case True
  with assms(2) have "read_riskScore link = Num 0"
    by (simp add: read_riskScore_def js_or_def parseInt_zero)
  then show ?thesis
    using handleLinkClick_num [OF assms(1), of 0 proceed br] click_num [of link 0 proceed br]
    by simp
next
  case False
  with assms(2,3) have "read_riskScore link = NaN"
    by (simp add: read_riskScore_def js_or_def)
  then show ?thesis
    using handleLinkClick_NaN [OF assms(1)] click_NaN by simp
qed

theorem unparsable_score_fails_open_witness:
  "target_link (fresh_event (annotate error_answer plain_link))
     = Some (annotate error_answer plain_link) \<and>
   getAttribute (annotate error_answer plain_link) ''data-risk-score'' = Some ''undefined'' \<and>
   parseInt ''undefined'' = NaN \<and>
   handleLinkClick False (fresh_event (annotate error_answer plain_link)) quiet_browser
     = (fresh_event (annotate error_answer plain_link), quiet_browser) \<and>
   click False (annotate error_answer plain_link) quiet_browser
     = quiet_browser\<lparr>location := ''https://shop.example/pay''\<rparr>"
proof -
  let ?odd = "annotate error_answer plain_link"
  have t: "target_link (fresh_event ?odd) = Some ?odd"
    by (simp add: fresh_event_def)
  have a: "getAttribute ?odd ''data-risk-score'' = Some ''undefined''"
    by (simp add: score_attribute_annotate error_answer_def string_of_score_def)
  have h: "href ?odd = ''https://shop.example/pay''"
    by (simp add: href_annotate plain_link_def)
  show ?thesis
    using unparsable_score_fails_open [OF t a parseInt_undefined, of False quiet_browser] t a h
      parseInt_undefined
    by simp
qed

text \<open>
  C5. A click on a link whose annotation reads as a score \<open>s\<close> with \<open>40 \<le> s < 70\<close>
  shows one yes/no prompt before the default action. If the user declines, the handler
  sets the two cancellation flags, the same two a DENY click sets, and the tab stays
  where it is; if the user accepts, the event is returned as it came and the navigation
  takes place. No modal is opened either way.
\<close>

theorem warn_click_asks_first:
  assumes "target_link event = Some link"
    and "read_riskScore link = Num s" and "40 \<le> s" and "s < 70"
  shows "handleLinkClick False event br =
           (event\<lparr>defaultPrevented := True, propagationStopped := True\<rparr>,
            br\<lparr>confirms := confirms br @ [(Num s, read_riskLevel link)]\<rparr>) \<and>
         handleLinkClick True event br =
           (event, br\<lparr>confirms := confirms br @ [(Num s, read_riskLevel link)]\<rparr>) \<and>
         click False link br = br\<lparr>confirms := confirms br @ [(Num s, read_riskLevel link)]\<rparr> \<and>
         click True link br =
           br\<lparr>confirms := confirms br @ [(Num s, read_riskLevel link)], location := href link\<rparr> \<and>
         (\<forall>hot d answer'. read_riskScore hot = Num d \<and> 70 \<le> d \<longrightarrow>
            fst (handleLinkClick answer' (event\<lparr>target_link := Some hot\<rparr>) br) =
            (fst (handleLinkClick False event br))\<lparr>target_link := Some hot\<rparr>)"
proof -
  have "\<not> 70 \<le> s" using assms(4) by simp
  then have 1: "handleLinkClick False event br =
           (event\<lparr>defaultPrevented := True, propagationStopped := True\<rparr>,
            br\<lparr>confirms := confirms br @ [(Num s, read_riskLevel link)]\<rparr>)"
    and 2: "handleLinkClick True event br =
           (event, br\<lparr>confirms := confirms br @ [(Num s, read_riskLevel link)]\<rparr>)"
    using assms(3) by (simp_all add: handleLinkClick_num [OF assms(1,2)])
  have 3: "click False link br = br\<lparr>confirms := confirms br @ [(Num s, read_riskLevel link)]\<rparr>"
    and 4: "click True link br =
           br\<lparr>confirms := confirms br @ [(Num s, read_riskLevel link)], location := href link\<rparr>"
    using assms(3,4) by (simp_all add: click_num [OF assms(2)])
  have 5: "fst (handleLinkClick answer' (event\<lparr>target_link := Some hot\<rparr>) br) =
            (fst (handleLinkClick False event br))\<lparr>target_link := Some hot\<rparr>"
    if "read_riskScore hot = Num d \<and> 70 \<le> d" for hot d answer'
  proof -
    have "target_link (event\<lparr>target_link := Some hot\<rparr>) = Some hot" by simp
    from handleLinkClick_num [OF this, of d answer' br] that show ?thesis
      by (simp add: 1)
  qed
  from 1 2 3 4 5 show ?thesis by blast
qed

theorem warn_click_asks_first_witness:
  "target_link (fresh_event (annotate (answer 55 ''MEDIUM RISK'') plain_link))
     = Some (annotate (answer 55 ''MEDIUM RISK'') plain_link) \<and>
   read_riskScore (annotate (answer 55 ''MEDIUM RISK'') plain_link) = Num 55 \<and>
   (40::int) \<le> 55 \<and> (55::int) < 70 \<and>
   click False (annotate (answer 55 ''MEDIUM RISK'') plain_link) quiet_browser
     = quiet_browser\<lparr>confirms := [(Num 55, ''MEDIUM RISK'')]\<rparr> \<and>
   click True (annotate (answer 55 ''MEDIUM RISK'') plain_link) quiet_browser
     = quiet_browser\<lparr>confirms := [(Num 55, ''MEDIUM RISK'')],
                      location := ''https://shop.example/pay''\<rparr> \<and>
   read_riskScore (annotate (answer 85 ''HIGH RISK'') plain_link) = Num 85 \<and>
   fst (handleLinkClick False
          (fresh_event (annotate (answer 55 ''MEDIUM RISK'') plain_link)) quiet_browser)
     = \<lparr>target_link = Some (annotate (answer 55 ''MEDIUM RISK'') plain_link),
        defaultPrevented = True, propagationStopped = True\<rparr>"
proof -
  let ?warm = "annotate (answer 55 ''MEDIUM RISK'') plain_link"
  have t: "target_link (fresh_event ?warm) = Some ?warm"
    by (simp add: fresh_event_def)
  have r: "read_riskScore ?warm = Num 55"
    by (rule read_riskScore_annotate)
  have l: "read_riskLevel ?warm = ''MEDIUM RISK''"
    by (simp add: read_riskLevel_annotate)
  have h: "href ?warm = ''https://shop.example/pay''"
    by (simp add: href_annotate plain_link_def)
  have c: "confirms quiet_browser = []"
    by (simp add: quiet_browser_def)
  show ?thesis
    using warn_click_asks_first [OF t r, of quiet_browser] t r
    by (simp add: l h c read_riskScore_annotate fresh_event_def)
qed

subsection \<open>The warning modal\<close>

lemma parse_html_plain: "CHR ''<'' \<notin> set s \<Longrightarrow> parse_html s = [Text s]"
  by (simp add: parse_html_def)

lemma parse_html_bait:
  "parse_html ''<a href=https://shop.example/pay>Continue</a>'' =
     [Anchor ''https://shop.example/pay'' ''Continue'']"
  by (simp add: parse_html_def parse_element_def strip_prefix_def unquoted_char_def
      text_char_def)

lemma parse_html_button:
  "parse_html ''<button id=closeWarning>Close</button>'' = [Button ''closeWarning'' ''Close'']"
  by (simp add: parse_html_def parse_element_def strip_prefix_def unquoted_char_def
      text_char_def)

lemma location_run_action: "location (run_action a br) = location br"
  by (cases a) (simp_all add: remove_modal_def)

lemma location_fold_run_action: "location (fold run_action as br) = location br"
  by (induction as arbitrary: br) (simp_all add: location_run_action)

text \<open>
  With a level and a URL that hold no \<^verbatim>\<open><\<close>, on a page without elements of the two
  ids and with no other modal open, the modal is the one the template describes: two
  pieces of text and the two buttons, each button with its own listener.
\<close>

lemma showWarningModal_plain:
  assumes "CHR ''<'' \<notin> set level" and "CHR ''<'' \<notin> set url"
    and "''closeWarning'' \<notin> set (page_ids br)" and "''reportThreat'' \<notin> set (page_ids br)"
    and "modals br = []"
  shows "showWarningModal url score level br =
     br\<lparr>modals := [\<lparr>modal_id = created br, shown_url = url, shown_score = score,
                      shown_level = level,
                      items = [Text level, Text url, Button ''closeWarning'' ''Close'',
                               Button ''reportThreat'' ''Report Threat'']\<rparr>],
        created := created br + 1,
        listeners := listeners br @
          [(ModalItem (created br) 2, RemoveModal (created br)),
           (ModalItem (created br) 3, ReportAndRemove (created br))]\<rparr>"
  using assms
  by (simp add: showWarningModal_def parse_html_plain getElementById_def Let_def)

text \<open>
  The deny branch with such plain text: the click is cancelled, the modal shows what it
  was given, its text does nothing, its Close button removes it and its Report Threat
  button acknowledges and removes it; the tab stays where it was throughout.
\<close>

lemma deny_click_plain_text:
  assumes "read_riskScore link = Num s" and "70 \<le> s"
    and "CHR ''<'' \<notin> set (read_riskLevel link)" and "CHR ''<'' \<notin> set (href link)"
    and "''closeWarning'' \<notin> set (page_ids br)" and "''reportThreat'' \<notin> set (page_ids br)"
    and "modals br = []" and "listeners br = []"
  shows "click proceed link br =
           br\<lparr>modals := [\<lparr>modal_id = created br, shown_url = href link, shown_score = Num s,
                      shown_level = read_riskLevel link,
                      items = [Text (read_riskLevel link), Text (href link),
                               Button ''closeWarning'' ''Close'',
                               Button ''reportThreat'' ''Report Threat'']\<rparr>],
              created := created br + 1,
              listeners := [(ModalItem (created br) 2, RemoveModal (created br)),
                            (ModalItem (created br) 3, ReportAndRemove (created br))]\<rparr>"
    and "press reply (created br) 0 (click proceed link br) = Some (click proceed link br)"
    and "press reply (created br) 1 (click proceed link br) = Some (click proceed link br)"
    and "press reply (created br) 2 (click proceed link br) =
           Some ((click proceed link br)\<lparr>modals := []\<rparr>)"
    and "press reply (created br) 3 (click proceed link br) =
           Some ((click proceed link br)\<lparr>modals := [],
              alerts := alerts br @ [''Thank you for reporting! This threat has been logged.'']\<rparr>)"
    and "press reply (created br) (4 + k) (click proceed link br) = Some (click proceed link br)"
    and "location (click proceed link br) = location br"
proof -
  have c: "click proceed link br =
             showWarningModal (href link) (Num s) (read_riskLevel link) br"
    using assms(2) by (simp add: click_num [OF assms(1)])
  show 1: "click proceed link br =
           br\<lparr>modals := [\<lparr>modal_id = created br, shown_url = href link, shown_score = Num s,
                      shown_level = read_riskLevel link,
                      items = [Text (read_riskLevel link), Text (href link),
                               Button ''closeWarning'' ''Close'',
                               Button ''reportThreat'' ''Report Threat'']\<rparr>],
              created := created br + 1,
              listeners := [(ModalItem (created br) 2, RemoveModal (created br)),
                            (ModalItem (created br) 3, ReportAndRemove (created br))]\<rparr>"
    using assms(8) by (simp add: c showWarningModal_plain [OF assms(3-7)])
  show "press reply (created br) 0 (click proceed link br) = Some (click proceed link br)"
    and "press reply (created br) 1 (click proceed link br) = Some (click proceed link br)"
    and "press reply (created br) (4 + k) (click proceed link br) = Some (click proceed link br)"
    by (simp_all add: 1 press_def)
  show "press reply (created br) 2 (click proceed link br) =
           Some ((click proceed link br)\<lparr>modals := []\<rparr>)"
    by (simp add: 1 press_def remove_modal_def)
  show "press reply (created br) 3 (click proceed link br) =
           Some ((click proceed link br)\<lparr>modals := [],
              alerts := alerts br @ [''Thank you for reporting! This threat has been logged.'']\<rparr>)"
    by (simp add: 1 press_def remove_modal_def)
  show "location (click proceed link br) = location br"
    by (simp add: c location_showWarningModal)
qed

lemma read_bait_link:
  "read_riskScore bait_link = Num 85"
  "read_riskLevel bait_link = ''<a href=https://shop.example/pay>Continue</a>''"
  "href bait_link = ''https://shop.example/pay''"
  by (simp_all add: read_riskScore_def read_riskLevel_def getAttribute_def js_or_def
      bait_link_def parseInt_def is_ws_def is_digit_def digit_val_def digits_value_def)

lemma showWarningModal_bait:
  "showWarningModal ''https://shop.example/pay'' (Num 85)
     ''<a href=https://shop.example/pay>Continue</a>'' quiet_browser =
   quiet_browser
     \<lparr>modals := [\<lparr>modal_id = 0, shown_url = ''https://shop.example/pay'', shown_score = Num 85,
                   shown_level = ''<a href=https://shop.example/pay>Continue</a>'',
                   items = [Anchor ''https://shop.example/pay'' ''Continue'',
                            Text ''https://shop.example/pay'',
                            Button ''closeWarning'' ''Close'',
                            Button ''reportThreat'' ''Report Threat'']\<rparr>],
      created := 1,
      listeners := [(ModalItem 0 2, RemoveModal 0), (ModalItem 0 3, ReportAndRemove 0)]\<rparr>"
proof -
  have "parse_html ''https://shop.example/pay'' = [Text ''https://shop.example/pay'']"
    by (simp add: parse_html_def)
  then show ?thesis
    by (simp add: showWarningModal_def parse_html_bait getElementById_def quiet_browser_def
        Let_def)
qed

text \<open>
  C2. A click on a link whose annotation reads as a score of 70 or more is cancelled and
  opens the warning modal with the link's URL, score and level; the modal is meant to
  offer dismissing and reporting only. The code puts the level into the modal's markup as
  it is: for the link annotated with the score 85 and, as its level, the markup of a link
  to the blocked page, the click is cancelled and the tab stays, but the modal holds that
  link next to its two buttons, and a click on it takes the tab to the blocked page.
\<close>

theorem deny_modal_holds_injected_link:
  "read_riskScore bait_link = Num 85 \<and>
   fst (handleLinkClick False (fresh_event bait_link) quiet_browser) =
     \<lparr>target_link = Some bait_link, defaultPrevented = True, propagationStopped = True\<rparr> \<and>
   location (click False bait_link quiet_browser) = ''https://news.example/'' \<and>
   modals (click False bait_link quiet_browser) =
     [\<lparr>modal_id = 0, shown_url = ''https://shop.example/pay'', shown_score = Num 85,
       shown_level = ''<a href=https://shop.example/pay>Continue</a>'',
       items = [Anchor ''https://shop.example/pay'' ''Continue'',
                Text ''https://shop.example/pay'',
                Button ''closeWarning'' ''Close'',
                Button ''reportThreat'' ''Report Threat'']\<rparr>] \<and>
   map_option location (press False 0 0 (click False bait_link quiet_browser)) =
     Some ''https://shop.example/pay''"
proof -
  have t: "target_link (fresh_event bait_link) = Some bait_link"
    by (simp add: fresh_event_def)
  have h: "handleLinkClick False (fresh_event bait_link) quiet_browser =
      ((fresh_event bait_link)\<lparr>defaultPrevented := True, propagationStopped := True\<rparr>,
       showWarningModal ''https://shop.example/pay'' (Num 85)
         ''<a href=https://shop.example/pay>Continue</a>'' quiet_browser)"
    using handleLinkClick_num [OF t read_bait_link(1), of False quiet_browser]
    by (simp add: read_bait_link)
  have c: "click False bait_link quiet_browser =
      showWarningModal ''https://shop.example/pay'' (Num 85)
         ''<a href=https://shop.example/pay>Continue</a>'' quiet_browser"
    using click_num [OF read_bait_link(1), of False quiet_browser]
    by (simp add: read_bait_link)
  have plain: "read_riskScore \<lparr>href = ''https://shop.example/pay'', attributes = [],
      style_border = None, style_backgroundColor = None, title = None, badges = []\<rparr> = Num 0"
    by (rule read_riskScore_absent) (simp add: getAttribute_def)
  let ?b = "showWarningModal ''https://shop.example/pay'' (Num 85)
         ''<a href=https://shop.example/pay>Continue</a>'' quiet_browser"
  have m: "modals ?b =
      [\<lparr>modal_id = 0, shown_url = ''https://shop.example/pay'', shown_score = Num 85,
        shown_level = ''<a href=https://shop.example/pay>Continue</a>'',
        items = [Anchor ''https://shop.example/pay'' ''Continue'',
                 Text ''https://shop.example/pay'',
                 Button ''closeWarning'' ''Close'',
                 Button ''reportThreat'' ''Report Threat'']\<rparr>]"
    by (simp add: showWarningModal_bait)
  have l: "location ?b = ''https://news.example/''"
    by (simp add: location_showWarningModal quiet_browser_def)
  have "press False 0 0 ?b = Some (?b\<lparr>location := ''https://shop.example/pay''\<rparr>)"
    by (simp add: press_def m click_num [OF plain])
  then have p: "map_option location (press False 0 0 ?b) = Some ''https://shop.example/pay''"
    by simp
  have f: "fst (handleLinkClick False (fresh_event bait_link) quiet_browser) =
     \<lparr>target_link = Some bait_link, defaultPrevented = True, propagationStopped = True\<rparr>"
    unfolding h by (simp add: fresh_event_def)
  from read_bait_link(1) f l m p show ?thesis
    by (simp only: c simp_thms)
qed

text \<open>
  Markup with the id of the Close button does more: \<^verbatim>\<open>getElementById\<close> finds it before
  the button of the template, so the listener lands on it and the template's own Close
  button is left without one.
\<close>

lemma close_listener_captured:
  "listeners (showWarningModal ''https://shop.example/pay'' (Num 85)
     ''<button id=closeWarning>Close</button>'' quiet_browser) =
   [(ModalItem 0 0, RemoveModal 0), (ModalItem 0 3, ReportAndRemove 0)]"
proof -
  have "parse_html ''https://shop.example/pay'' = [Text ''https://shop.example/pay'']"
    by (simp add: parse_html_def)
  then show ?thesis
    by (simp add: showWarningModal_def parse_html_button getElementById_def quiet_browser_def
        Let_def)
qed

subsection \<open>Dispatch: one call of analyzeLinkElement\<close>

lemma start_cases:
  "analyzeLinkElement_start now e st =
     (if href e \<in> set (analyzedLinks st) \<or> \<not> qualifies (href e) then st
      else st\<lparr>analyzedLinks := analyzedLinks st @ [href e],
              requests := requests st @ [(now, href e)],
              in_flight := in_flight st @ [href e]\<rparr>)"
  by (simp add: analyzeLinkElement_start_def qualifies_def Let_def)

lemma start_known:
  "href e \<in> set (analyzedLinks st) \<Longrightarrow> analyzeLinkElement_start now e st = st"
  by (simp add: start_cases)

lemma start_fresh:
  "href e \<notin> set (analyzedLinks st) \<Longrightarrow> qualifies (href e) \<Longrightarrow>
   analyzeLinkElement_start now e st =
     st\<lparr>analyzedLinks := analyzedLinks st @ [href e],
        requests := requests st @ [(now, href e)],
        in_flight := in_flight st @ [href e]\<rparr>"
  by (simp add: start_cases)

lemma start_covers:
  "qualifies (href e) \<Longrightarrow> href e \<in> set (analyzedLinks (analyzeLinkElement_start now e st))"
  by (simp add: start_cases)

lemma start_mono:
  "set (analyzedLinks st) \<subseteq> set (analyzedLinks (analyzeLinkElement_start now e st))"
  by (auto simp: start_cases)

subsection \<open>Dispatch: runs of tasks\<close>

lemma run_Nil: "run [] st = st"
  by (simp add: run_def)

lemma run_Cons: "run (t # ts) st = run ts (step t st)"
  by (simp add: run_def)

lemma rescan_free_take: "rescan_free ts \<Longrightarrow> rescan_free (take n ts)"
proof (induction ts arbitrary: n rule: rescan_free.induct)
  case 1
  show ?case by simp
next
  case (2 links ts)
  then show ?case by simp
next
  case (3 now link ts)
  then show ?case by (cases n) simp_all
next
  case (4 u ts)
  then show ?case by (cases n) simp_all
qed

lemma epochs_nonempty: "epochs ts \<noteq> []"
  by (induction ts rule: epochs.induct) (simp_all split: list.split)

lemma epochs_rescan_free: "rescan_free ts \<Longrightarrow> epochs ts = [ts]"
  by (induction ts rule: epochs.induct) simp_all

lemma step_known_requests:
  "url \<in> set (analyzedLinks st) \<Longrightarrow> rescan_free [t] \<Longrightarrow>
   filter (\<lambda>r. snd r = url) (requests (step t st)) = filter (\<lambda>r. snd r = url) (requests st) \<and>
   url \<in> set (analyzedLinks (step t st))"
  by (cases t) (auto simp: start_cases)

lemma run_known_requests:
  "rescan_free ts \<Longrightarrow> url \<in> set (analyzedLinks st) \<Longrightarrow>
   filter (\<lambda>r. snd r = url) (requests (run ts st)) = filter (\<lambda>r. snd r = url) (requests st)"
proof (induction ts arbitrary: st rule: rescan_free.induct)
  case 1
  show ?case by (simp add: run_Nil)
next
  case (2 links ts)
  then show ?case by simp
next
  case (3 now link ts)
  have f: "rescan_free [Call now link]" by simp
  from step_known_requests [OF "3.prems"(2) f] "3.IH" [of "step (Call now link) st"]
    "3.prems"(1)
  show ?case by (simp add: run_Cons)
next
  case (4 u ts)
  have f: "rescan_free [Settle u]" by simp
  from step_known_requests [OF "4.prems"(2) f] "4.IH" [of "step (Settle u) st"]
    "4.prems"(1)
  show ?case by (simp add: run_Cons)
qed

text \<open>What holds of every state a run without rescan reaches from the initial one.\<close>

lemma coherent_initial: "coherent initial_state"
  by (simp add: coherent_def initial_state_def)

lemma coherent_step: "coherent st \<Longrightarrow> rescan_free [t] \<Longrightarrow> coherent (step t st)"
proof (cases t)
  case (Call now e)
  assume "coherent st"
  then show ?thesis
    unfolding Call by (auto simp: coherent_def start_cases list_all_iff)
next
  case (Settle u)
  assume "coherent st"
  then show ?thesis
    unfolding Settle using set_remove1_subset [of u "in_flight st"]
    by (auto simp: coherent_def list_all_iff)
next
  case (Rescan links)
  assume "rescan_free [t]"
  then show ?thesis unfolding Rescan by simp
qed

lemma coherent_run: "rescan_free ts \<Longrightarrow> coherent st \<Longrightarrow> coherent (run ts st)"
proof (induction ts arbitrary: st rule: rescan_free.induct)
  case 1
  then show ?case by (simp add: run_Nil)
next
  case (2 links ts)
  then show ?case by simp
next
  case (3 now link ts)
  have "coherent (step (Call now link) st)"
    by (rule coherent_step [OF "3.prems"(2)]) simp
  with "3.IH" "3.prems"(1) show ?case by (simp add: run_Cons)
next
  case (4 u ts)
  have "coherent (step (Settle u) st)"
    by (rule coherent_step [OF "4.prems"(2)]) simp
  with "4.IH" "4.prems"(1) show ?case by (simp add: run_Cons)
qed

lemma count_list_distinct:
  "distinct xs \<Longrightarrow> count_list xs x = (if x \<in> set xs then 1 else 0)"
  by (induction xs) auto

text \<open>
  The requests for a URL, counted along any run from any state: one for each epoch in
  which the URL is submitted, the running epoch counting only when the URL is not in the
  set yet.
\<close>

lemma count_requests_run:
  assumes "qualifies u"
  shows "count_list (map snd (requests (run ts st))) u =
           count_list (map snd (requests st)) u +
           (if submitted (hd (epochs ts)) u \<and> u \<notin> set (analyzedLinks st) then 1 else 0) +
           length (filter (\<lambda>e. submitted e u) (tl (epochs ts)))"
proof (induction ts arbitrary: st rule: epochs.induct)
  case 1
  show ?case by (simp add: run_Nil)
next
  case (2 links ts)
  have e: "epochs ts = hd (epochs ts) # tl (epochs ts)"
    using epochs_nonempty [of ts] by simp
  have "length (filter (\<lambda>e. submitted e u) (epochs ts)) =
          (if submitted (hd (epochs ts)) u then 1 else 0) +
          length (filter (\<lambda>e. submitted e u) (tl (epochs ts)))"
    by (subst e) simp
  with "2.IH" [of "step (Rescan links) st"] show ?case
    by (simp add: run_Cons rescanPage_def)
next
  case (3 now link ts)
  obtain e es where e: "epochs ts = e # es"
    using epochs_nonempty [of ts] by (cases "epochs ts") auto
  note ih = "3.IH" [of "analyzeLinkElement_start now link st"]
  show ?case
  proof (cases "href link = u")
    case True
    show ?thesis
    proof (cases "u \<in> set (analyzedLinks st)")
      case known: True
      with True have "analyzeLinkElement_start now link st = st"
        by (simp add: start_cases)
      with ih known show ?thesis by (simp add: run_Cons e True)
    next
      case new: False
      with True assms have
        "requests (analyzeLinkElement_start now link st) = requests st @ [(now, u)]"
        "u \<in> set (analyzedLinks (analyzeLinkElement_start now link st))"
        by (auto simp: start_cases)
      with ih new show ?thesis by (simp add: run_Cons e True)
    qed
  next
    case False
    then have "count_list (map snd (requests (analyzeLinkElement_start now link st))) u =
                 count_list (map snd (requests st)) u"
      and "u \<in> set (analyzedLinks (analyzeLinkElement_start now link st)) \<longleftrightarrow>
           u \<in> set (analyzedLinks st)"
      by (auto simp: start_cases)
    with ih False show ?thesis by (simp add: run_Cons e)
  qed
next
  case (4 v ts)
  obtain e es where e: "epochs ts = e # es"
    using epochs_nonempty [of ts] by (cases "epochs ts") auto
  from "4.IH" [of "step (Settle v) st"] show ?case
    by (simp add: run_Cons e)
qed

lemma count_requests_run_other:
  assumes "\<not> qualifies u"
  shows "count_list (map snd (requests (run ts st))) u = count_list (map snd (requests st)) u"
proof (induction ts arbitrary: st)
  case Nil
  show ?case by (simp add: run_Nil)
next
  case (Cons t ts)
  have "count_list (map snd (requests (step t st))) u = count_list (map snd (requests st)) u"
    using assms by (cases t) (auto simp: start_cases rescanPage_def)
  with Cons.IH [of "step t st"] show ?case by (simp add: run_Cons)
qed

lemma submitted_hd_tl:
  "length (filter (\<lambda>e. submitted e u) (epochs ts)) =
     (if submitted (hd (epochs ts)) u then 1 else 0) +
     length (filter (\<lambda>e. submitted e u) (tl (epochs ts)))"
proof -
  have e: "epochs ts = hd (epochs ts) # tl (epochs ts)"
    using epochs_nonempty [of ts] by simp
  show ?thesis by (subst e) simp
qed

text \<open>
  C3, as the code has it. From the page load, a run of submissions (by scan timers, by
  the mutation observer, or both), settled responses and \<^verbatim>\<open>rescanPage\<close> messages issues,
  for an http(s) URL, exactly one scoring request for each epoch in which the URL is
  submitted, an epoch being the stretch from the page load or a \<^verbatim>\<open>rescanPage\<close> message
  to the next such message; for any other URL it issues none. In a run without
  \<^verbatim>\<open>rescanPage\<close> message this is exactly one request for an http(s) URL submitted at
  least once, however often it is submitted, and at every moment of such a run at most one
  request per URL is outstanding: the membership test and the insertion into
  \<^verbatim>\<open>analyzedLinks\<close> are part of the same synchronous step as the call of \<^verbatim>\<open>fetch\<close>.
\<close>

theorem one_request_per_epoch:
  "count_list (map snd (requests (run ts initial_state))) url =
     (if qualifies url then length (filter (\<lambda>e. submitted e url) (epochs ts)) else 0) \<and>
   (rescan_free ts \<longrightarrow>
      count_list (map snd (requests (run ts initial_state))) url =
        (if qualifies url \<and> submitted ts url then 1 else 0) \<and>
      (\<forall>n. count_list (in_flight (run (take n ts) initial_state)) url \<le> 1))"
proof -
  have i: "requests initial_state = []" "analyzedLinks initial_state = []"
    by (simp_all add: initial_state_def)
  have 1: "count_list (map snd (requests (run ts initial_state))) url =
     (if qualifies url then length (filter (\<lambda>e. submitted e url) (epochs ts)) else 0)"
  proof (cases "qualifies url")
    case True
    from count_requests_run [OF True, of ts initial_state] show ?thesis
      by (simp add: i True submitted_hd_tl)
  next
    case False
    from count_requests_run_other [OF False, of ts initial_state] show ?thesis
      by (simp add: i False)
  qed
  have 2: "count_list (map snd (requests (run ts initial_state))) url =
        (if qualifies url \<and> submitted ts url then 1 else 0)" if "rescan_free ts"
    using 1 by (simp add: epochs_rescan_free [OF that])
  have 3: "count_list (in_flight (run (take n ts) initial_state)) url \<le> 1"
    if "rescan_free ts" for n
  proof -
    have "coherent (run (take n ts) initial_state)"
      by (rule coherent_run [OF rescan_free_take [OF that] coherent_initial])
    then have "distinct (in_flight (run (take n ts) initial_state))"
      by (simp add: coherent_def)
    then show ?thesis by (simp add: count_list_distinct)
  qed
  from 1 2 3 show ?thesis by blast
qed

theorem one_request_per_epoch_witness:
  "rescan_free [Call 0 plain_link, Call 0 plain_link, Settle ''https://shop.example/pay'',
                Call 700 plain_link] \<and>
   qualifies ''https://shop.example/pay'' \<and>
   submitted [Call 0 plain_link, Call 0 plain_link, Settle ''https://shop.example/pay'',
              Call 700 plain_link] ''https://shop.example/pay'' \<and>
   requests (run [Call 0 plain_link, Call 0 plain_link, Settle ''https://shop.example/pay'',
                  Call 700 plain_link] initial_state) = [(0, ''https://shop.example/pay'')] \<and>
   count_list (map snd (requests (run [Call 0 plain_link, Call 0 plain_link,
        Settle ''https://shop.example/pay'', Call 700 plain_link] initial_state)))
     ''https://shop.example/pay'' = 1 \<and>
   count_list (in_flight (run (take 2 [Call 0 plain_link, Call 0 plain_link,
        Settle ''https://shop.example/pay'', Call 700 plain_link]) initial_state))
     ''https://shop.example/pay'' \<le> 1"
proof -
  let ?ts = "[Call 0 plain_link, Call 0 plain_link, Settle ''https://shop.example/pay'',
              Call 700 plain_link]"
  have f: "rescan_free ?ts" by simp
  have q: "qualifies ''https://shop.example/pay''"
    by (simp add: qualifies_def startsWith_def)
  have s: "submitted ?ts ''https://shop.example/pay''"
    by (simp add: plain_link_def)
  have r: "requests (run ?ts initial_state) = [(0, ''https://shop.example/pay'')]"
    by (simp add: run_def analyzeLinkElement_start_def initial_state_def plain_link_def
        startsWith_def Let_def)
  note w = one_request_per_epoch [of ?ts "''https://shop.example/pay''"]
  from w f q s have c: "count_list (map snd (requests (run ?ts initial_state)))
      ''https://shop.example/pay'' = 1"
    by simp
  from w f have "count_list (in_flight (run (take 2 ?ts) initial_state))
      ''https://shop.example/pay'' \<le> 1"
    by blast
  with f q s r c show ?thesis by blast
qed

text \<open>
  The claim as written fails once a \<^verbatim>\<open>rescanPage\<close> message is handled: the link is
  submitted, the page is rescanned while the request is still outstanding, and the next
  submission of the same link issues a second request; two are outstanding then.
\<close>

theorem one_request_counterexample:
  "requests (run [Call 0 plain_link, Rescan [plain_link], Call 5000 plain_link] initial_state) =
     [(0, ''https://shop.example/pay''), (5000, ''https://shop.example/pay'')] \<and>
   in_flight (run [Call 0 plain_link, Rescan [plain_link], Call 5000 plain_link] initial_state) =
     [''https://shop.example/pay'', ''https://shop.example/pay'']"
  by (simp add: run_def analyzeLinkElement_start_def rescanPage_def initial_state_def
      plain_link_def startsWith_def Let_def)

subsection \<open>The initial scan\<close>

lemma scanAllLinks_nth:
  "scanAllLinks links = map (\<lambda>i. (i * 100, links ! i)) [0..<length links]"
  by (rule nth_equalityI) (simp_all add: scanAllLinks_def nth_enumerate_eq)

lemma fire_timers_enumerate:
  "fire_timers t0 (scanAllLinks links) st =
     fold (\<lambda>(i, l). analyzeLinkElement_start (t0 + i * 100) l) (enumerate 0 links) st"
proof -
  have "(\<lambda>(delay, link). analyzeLinkElement_start (t0 + delay) link) \<circ>
        (\<lambda>(index, link). (index * 100, link)) =
        (\<lambda>(i, l). analyzeLinkElement_start (t0 + i * 100) l)"
    by (rule ext) (simp add: split_def)
  then show ?thesis
    by (simp add: fire_timers_def scanAllLinks_def fold_map)
qed

lemma initial_scan_snoc:
  "initial_scan t0 (ls @ [l]) st =
     analyzeLinkElement_start (t0 + length ls * 100) l (initial_scan t0 ls st)"
  by (simp add: initial_scan_def fire_timers_enumerate enumerate_append_eq)

lemma analyzed_initial_scan:
  "set (analyzedLinks (initial_scan t0 links st)) =
     set (analyzedLinks st) \<union> {u. qualifies u \<and> u \<in> set (map href links)}"
proof (induction links rule: rev_induct)
  case Nil
  show ?case by (simp add: initial_scan_def fire_timers_def scanAllLinks_def)
next
  case (snoc l ls)
  show ?case
    unfolding initial_scan_snoc
    by (auto simp: start_cases snoc.IH)
qed

lemma requested_by_scan_snoc:
  "i < length ls \<Longrightarrow> requested_by_scan st (ls @ [l]) i = requested_by_scan st ls i"
  by (simp add: requested_by_scan_def nth_append)

lemma requested_by_scan_last:
  "requested_by_scan st (ls @ [l]) (length ls) \<longleftrightarrow>
     qualifies (href l) \<and> href l \<notin> set (analyzedLinks st) \<and> href l \<notin> set (map href ls)"
  by (simp add: requested_by_scan_def)

text \<open>
  The requests of a scan, exactly: one for each position whose link is the first of the
  document with its URL, an http(s) URL not analysed before, at 100 ms times the
  position, in the order of the positions.
\<close>

lemma requests_initial_scan:
  "requests (initial_scan t0 links st) =
     requests st @ map (\<lambda>i. (t0 + i * 100, href (links ! i)))
                     (filter (requested_by_scan st links) [0..<length links])"
proof (induction links rule: rev_induct)
  case Nil
  show ?case by (simp add: initial_scan_def fire_timers_def scanAllLinks_def)
next
  case (snoc l ls)
  let ?n = "length ls"
  have f: "filter (requested_by_scan st (ls @ [l])) [0..<?n] =
           filter (requested_by_scan st ls) [0..<?n]"
    by (rule filter_cong [OF refl]) (simp add: requested_by_scan_snoc)
  have m: "map (\<lambda>i. (t0 + i * 100, href ((ls @ [l]) ! i)))
             (filter (requested_by_scan st ls) [0..<?n]) =
           map (\<lambda>i. (t0 + i * 100, href (ls ! i)))
             (filter (requested_by_scan st ls) [0..<?n])"
    by (rule map_cong [OF refl]) (simp add: nth_append)
  have d: "(href l \<in> set (analyzedLinks (initial_scan t0 ls st)) \<or> \<not> qualifies (href l)) \<longleftrightarrow>
           \<not> requested_by_scan st (ls @ [l]) ?n"
    unfolding requested_by_scan_last analyzed_initial_scan by auto
  show ?case
  proof (cases "requested_by_scan st (ls @ [l]) ?n")
    case True
    with d have "requests (initial_scan t0 (ls @ [l]) st) =
        requests (initial_scan t0 ls st) @ [(t0 + ?n * 100, href l)]"
      by (simp add: initial_scan_snoc start_cases)
    with True show ?thesis
      by (simp add: snoc.IH f m)
  next
    case False
    with d have "requests (initial_scan t0 (ls @ [l]) st) = requests (initial_scan t0 ls st)"
      by (simp add: initial_scan_snoc start_cases)
    with False show ?thesis
      by (simp add: snoc.IH f m)
  qed
qed

lemma filter_upt_all:
  "(\<And>i. i < n \<Longrightarrow> P i) \<Longrightarrow> filter P [0..<n] = [0..<n]"
  by (simp add: filter_id_conv)

lemma requested_by_scan_all:
  assumes "distinct (map href links)"
    and "\<forall>l\<in>set links. qualifies (href l) \<and> href l \<notin> set (analyzedLinks st)"
    and "i < length links"
  shows "requested_by_scan st links i"
proof -
  have "links ! i \<in> set links" using assms(3) by simp
  with assms(2) have q: "qualifies (href (links ! i))"
    "href (links ! i) \<notin> set (analyzedLinks st)" by blast+
  have "map href links ! i \<notin> set (take i (map href links))"
    using assms(1,3) by (simp add: distinct_conv_nth in_set_conv_nth)
  then have "href (links ! i) \<notin> set (map href (take i links))"
    using assms(3) by (simp add: take_map)
  with q show ?thesis by (simp add: requested_by_scan_def)
qed

lemma sorted_less_nth_ge:
  "sorted_wrt (<) (js::nat list) \<Longrightarrow> k < length js \<Longrightarrow> k \<le> js ! k"
proof (induction k)
  case 0
  show ?case by simp
next
  case (Suc k)
  then have "k \<le> js ! k" by simp
  moreover have "js ! k < js ! Suc k"
    using sorted_wrt_nth_less [OF Suc.prems(1), of k "Suc k"] Suc.prems(2) by simp
  ultimately show ?case by simp
qed

text \<open>
  C7, as the code has it. \<^verbatim>\<open>scanAllLinks\<close> sets the timer of the link at position
  \<open>i\<close> among all \<^verbatim>\<open>a[href]\<close> elements of the document (whatever their scheme,
  duplicates included) to \<open>i \<times> 100\<close> ms. The scan issues a request for exactly those
  positions whose link is the first of the document with its URL, that URL being an
  http(s) URL not analysed before the scan, each at 100 ms times its position after the
  start and in document order. So the \<open>k\<close>-th request is never earlier than
  \<open>k \<times> 100\<close> ms, two requests are at least 100 ms apart, and when all links are
  distinct http(s) links not analysed before, request \<open>i\<close> goes out at exactly
  \<open>i \<times> 100\<close> ms.
\<close>

theorem scan_stagger:
  "scanAllLinks links = map (\<lambda>i. (i * 100, links ! i)) [0..<length links] \<and>
   requests (initial_scan t0 links st) =
     requests st @ map (\<lambda>i. (t0 + i * 100, href (links ! i)))
                     (filter (requested_by_scan st links) [0..<length links]) \<and>
   sorted_wrt (<) (filter (requested_by_scan st links) [0..<length links]) \<and>
   (\<forall>k<length (filter (requested_by_scan st links) [0..<length links]).
      k \<le> filter (requested_by_scan st links) [0..<length links] ! k) \<and>
   (\<forall>k. Suc k < length (filter (requested_by_scan st links) [0..<length links]) \<longrightarrow>
      t0 + filter (requested_by_scan st links) [0..<length links] ! k * 100 + 100
        \<le> t0 + filter (requested_by_scan st links) [0..<length links] ! Suc k * 100) \<and>
   (distinct (map href links) \<and>
    (\<forall>l\<in>set links. qualifies (href l) \<and> href l \<notin> set (analyzedLinks st)) \<longrightarrow>
      requests (initial_scan t0 links st) =
        requests st @ map (\<lambda>i. (t0 + i * 100, href (links ! i))) [0..<length links])"
proof (intro conjI impI)
  show "scanAllLinks links = map (\<lambda>i. (i * 100, links ! i)) [0..<length links]"
    by (rule scanAllLinks_nth)
  show "requests (initial_scan t0 links st) =
     requests st @ map (\<lambda>i. (t0 + i * 100, href (links ! i)))
                     (filter (requested_by_scan st links) [0..<length links])"
    by (rule requests_initial_scan)
  show s: "sorted_wrt (<) (filter (requested_by_scan st links) [0..<length links])"
    by (rule sorted_wrt_filter) simp
  show "\<forall>k<length (filter (requested_by_scan st links) [0..<length links]).
      k \<le> filter (requested_by_scan st links) [0..<length links] ! k"
    using sorted_less_nth_ge [OF s] by blast
  show "\<forall>k. Suc k < length (filter (requested_by_scan st links) [0..<length links]) \<longrightarrow>
      t0 + filter (requested_by_scan st links) [0..<length links] ! k * 100 + 100
        \<le> t0 + filter (requested_by_scan st links) [0..<length links] ! Suc k * 100"
  proof (intro allI impI)
    fix k
    assume "Suc k < length (filter (requested_by_scan st links) [0..<length links])"
    then have "filter (requested_by_scan st links) [0..<length links] ! k
        < filter (requested_by_scan st links) [0..<length links] ! Suc k"
      using sorted_wrt_nth_less [OF s, of k "Suc k"] by simp
    then show "t0 + filter (requested_by_scan st links) [0..<length links] ! k * 100 + 100
        \<le> t0 + filter (requested_by_scan st links) [0..<length links] ! Suc k * 100"
      by simp
  qed
next
  assume a: "distinct (map href links) \<and>
    (\<forall>l\<in>set links. qualifies (href l) \<and> href l \<notin> set (analyzedLinks st))"
  have "filter (requested_by_scan st links) [0..<length links] = [0..<length links]"
    by (rule filter_upt_all) (rule requested_by_scan_all, use a in blast, use a in blast)
  then show "requests (initial_scan t0 links st) =
        requests st @ map (\<lambda>i. (t0 + i * 100, href (links ! i))) [0..<length links]"
    by (simp add: requests_initial_scan)
qed

lemma qualifies_samples:
  "qualifies (href plain_link)" "qualifies (href cart_link)" "\<not> qualifies (href mail_link)"
  by (simp_all add: qualifies_def startsWith_def plain_link_def cart_link_def mail_link_def)

theorem scan_stagger_witness:
  "filter (requested_by_scan initial_state [mail_link, plain_link, plain_link, cart_link])
     [0..<length [mail_link, plain_link, plain_link, cart_link]] = [1, 3] \<and>
   requests (initial_scan 0 [mail_link, plain_link, plain_link, cart_link] initial_state) =
     [(100, ''https://shop.example/pay''), (300, ''http://shop.example/cart'')] \<and>
   distinct (map href [plain_link, cart_link]) \<and>
   qualifies (href plain_link) \<and> qualifies (href cart_link) \<and>
   analyzedLinks initial_state = [] \<and>
   requests (initial_scan 0 [plain_link, cart_link] initial_state) =
     [(0, ''https://shop.example/pay''), (100, ''http://shop.example/cart'')]"
proof -
  let ?doc = "[mail_link, plain_link, plain_link, cart_link]"
  have u4: "[0..<length ?doc] = [0, 1, 2, 3]"
    by (simp add: upt_rec)
  have h: "href mail_link = ''mailto:desk@news.example''"
    "href plain_link = ''https://shop.example/pay''"
    "href cart_link = ''http://shop.example/cart''"
    by (simp_all add: mail_link_def plain_link_def cart_link_def)
  have i: "analyzedLinks initial_state = []" "requests initial_state = []"
    by (simp_all add: initial_state_def)
  have f: "filter (requested_by_scan initial_state ?doc) [0..<length ?doc] = [1, 3]"
    unfolding u4
    by (simp add: requested_by_scan_def i qualifies_samples) (simp add: h)
  from scan_stagger [of ?doc 0 initial_state]
  have "requests (initial_scan 0 ?doc initial_state) =
     requests initial_state @ map (\<lambda>i. (0 + i * 100, href (?doc ! i)))
        (filter (requested_by_scan initial_state ?doc) [0..<length ?doc])"
    by blast
  then have r: "requests (initial_scan 0 ?doc initial_state) =
     [(100, ''https://shop.example/pay''), (300, ''http://shop.example/cart'')]"
    unfolding f by (simp add: i h)
  have d: "distinct (map href [plain_link, cart_link])"
    by (simp add: h)
  have a: "\<forall>l\<in>set [plain_link, cart_link].
      qualifies (href l) \<and> href l \<notin> set (analyzedLinks initial_state)"
    by (simp add: qualifies_samples i)
  have u: "[0..<2] = [0, Suc 0]" by (simp add: upt_rec)
  from scan_stagger [of "[plain_link, cart_link]" 0 initial_state] d a
  have "requests (initial_scan 0 [plain_link, cart_link] initial_state) =
     requests initial_state @
       map (\<lambda>i. (0 + i * 100, href ([plain_link, cart_link] ! i))) [0..<length [plain_link, cart_link]]"
    by blast
  then have r2: "requests (initial_scan 0 [plain_link, cart_link] initial_state) =
     [(0, ''https://shop.example/pay''), (100, ''http://shop.example/cart'')]"
    by (simp add: u i h)
  from f r d r2 i(1) show ?thesis by (simp add: qualifies_samples)
qed

text \<open>
  The claim as written fails where a link that issues no request stands before one that
  does: in a document whose links are a mail link and then one http(s) link, the only
  request of the scan, request 0 of the one qualifying link, goes out at 100 ms, not at
  \<open>0 \<times> 100\<close> ms.
\<close>

theorem scan_stagger_counterexample:
  "\<not> qualifies (href mail_link) \<and> qualifies (href plain_link) \<and>
   requests (initial_scan 0 [mail_link, plain_link] initial_state) =
     [(100, ''https://shop.example/pay'')]"
  by (simp add: initial_scan_def fire_timers_def scanAllLinks_def analyzeLinkElement_start_def
      initial_state_def qualifies_def startsWith_def mail_link_def plain_link_def Let_def)

subsection \<open>The mutation watcher\<close>

lemma dispatched_at_refl: "dispatched_at now st st"
  by (simp add: dispatched_at_def)

lemma dispatched_at_trans:
  assumes "dispatched_at now st st1" and "dispatched_at now st1 st2"
  shows "dispatched_at now st st2"
proof -
  from assms(1) obtain n1 where n1: "requests st1 = requests st @ n1"
      "list_all (\<lambda>r. fst r = now) n1"
      "set (analyzedLinks st1) = set (analyzedLinks st) \<union> snd ` set n1"
    unfolding dispatched_at_def by blast
  from assms(2) obtain n2 where n2: "requests st2 = requests st1 @ n2"
      "list_all (\<lambda>r. fst r = now) n2"
      "set (analyzedLinks st2) = set (analyzedLinks st1) \<union> snd ` set n2"
    unfolding dispatched_at_def by blast
  have "requests st2 = requests st @ (n1 @ n2)" using n1(1) n2(1) by simp
  moreover have "list_all (\<lambda>r. fst r = now) (n1 @ n2)" using n1(2) n2(2) by simp
  moreover have "set (analyzedLinks st2) = set (analyzedLinks st) \<union> snd ` set (n1 @ n2)"
    using n1(3) n2(3) by auto
  ultimately show ?thesis unfolding dispatched_at_def by blast
qed

lemma dispatched_at_mono:
  "dispatched_at now st st' \<Longrightarrow> set (analyzedLinks st) \<subseteq> set (analyzedLinks st')"
  unfolding dispatched_at_def by blast

lemma start_dispatched_at: "dispatched_at now st (analyzeLinkElement_start now e st)"
proof (cases "href e \<in> set (analyzedLinks st) \<or> \<not> qualifies (href e)")
  case True
  then show ?thesis by (simp add: start_cases dispatched_at_refl)
next
  case False
  then have "requests (analyzeLinkElement_start now e st) = requests st @ [(now, href e)]"
    and "set (analyzedLinks (analyzeLinkElement_start now e st)) =
         set (analyzedLinks st) \<union> snd ` set [(now, href e)]"
    by (simp_all add: start_cases)
  moreover have "list_all (\<lambda>r. fst r = now) [(now, href e)]" by simp
  ultimately show ?thesis unfolding dispatched_at_def by blast
qed

lemma fold_dispatched_at:
  assumes "\<And>x s. dispatched_at now s (f x s)"
  shows "dispatched_at now st (fold f xs st)"
proof (induction xs arbitrary: st)
  case Nil
  show ?case by (simp add: dispatched_at_refl)
next
  case (Cons x xs)
  have "dispatched_at now st (f x st)" by (rule assms)
  moreover have "dispatched_at now (f x st) (fold f xs (f x st))" by (rule Cons.IH)
  ultimately show ?case by (simp add: dispatched_at_trans)
qed

lemma fold_covers:
  assumes step: "\<And>x s. dispatched_at now s (f x s)"
    and cov: "\<And>x s. x \<in> set xs \<Longrightarrow> u \<in> C x \<Longrightarrow> u \<in> set (analyzedLinks (f x s))"
    and x: "x \<in> set xs" and u: "u \<in> C x"
  shows "u \<in> set (analyzedLinks (fold f xs st))"
  using cov x
proof (induction xs arbitrary: st)
  case Nil
  then show ?case by simp
next
  case (Cons y ys)
  show ?case
  proof (cases "x = y")
    case True
    have "u \<in> set (analyzedLinks (f y st))"
      using Cons.prems(1) [of y st] u True by simp
    moreover have "dispatched_at now (f y st) (fold f ys (f y st))"
      by (rule fold_dispatched_at [OF step])
    ultimately show ?thesis
      using dispatched_at_mono by fastforce
  next
    case False
    with Cons.prems(2) have "x \<in> set ys" by simp
    moreover have "\<And>x s. x \<in> set ys \<Longrightarrow> u \<in> C x \<Longrightarrow> u \<in> set (analyzedLinks (f x s))"
      using Cons.prems(1) by simp
    ultimately have "u \<in> set (analyzedLinks (fold f ys (f y st)))"
      using Cons.IH by blast
    then show ?thesis by simp
  qed
qed

lemma set_subtree_links_Elem:
  "set (subtree_links (Elem tag l cs)) =
     set (if tag = ''A'' then (case l of None \<Rightarrow> [] | Some e \<Rightarrow> [e]) else [])
     \<union> set (querySelectorAll_links (Elem tag l cs))"
  by (simp only: querySelectorAll_links_def subtree_links.simps set_append node.case)

lemma qualifies_nonempty: "qualifies u \<Longrightarrow> u \<noteq> []"
  by (auto simp: qualifies_def startsWith_def)

lemma on_added_node_dispatched_at: "dispatched_at now st (on_added_node now n st)"
proof (cases n)
  case Other
  then show ?thesis by (simp add: on_added_node_def dispatched_at_refl)
next
  case (Elem tag l cs)
  let ?st1 = "if tag = ''A'' \<and> (case l of None \<Rightarrow> False | Some e \<Rightarrow> href e \<noteq> [])
              then (case l of None \<Rightarrow> st | Some e \<Rightarrow> analyzeLinkElement_start now e st)
              else st"
  have 1: "dispatched_at now st ?st1"
    by (simp add: dispatched_at_refl start_dispatched_at split: option.split)
  have 2: "dispatched_at now ?st1
             (fold (analyzeLinkElement_start now) (querySelectorAll_links n) ?st1)"
    by (rule fold_dispatched_at) (rule start_dispatched_at)
  have "on_added_node now n st =
          fold (analyzeLinkElement_start now) (querySelectorAll_links n) ?st1"
    by (simp add: on_added_node_def Elem Let_def)
  with dispatched_at_trans [OF 1 2] show ?thesis by simp
qed

lemma on_added_node_covers:
  assumes "e \<in> set (subtree_links n)" and "qualifies (href e)"
  shows "href e \<in> set (analyzedLinks (on_added_node now n st))"
proof (cases n)
  case Other
  with assms(1) show ?thesis by simp
next
  case (Elem tag l cs)
  let ?st1 = "if tag = ''A'' \<and> (case l of None \<Rightarrow> False | Some e \<Rightarrow> href e \<noteq> [])
              then (case l of None \<Rightarrow> st | Some e \<Rightarrow> analyzeLinkElement_start now e st)
              else st"
  have eq: "on_added_node now n st =
          fold (analyzeLinkElement_start now) (querySelectorAll_links n) ?st1"
    by (simp add: on_added_node_def Elem Let_def)
  have 2: "dispatched_at now ?st1
             (fold (analyzeLinkElement_start now) (querySelectorAll_links n) ?st1)"
    by (rule fold_dispatched_at) (rule start_dispatched_at)
  have "set (subtree_links n) =
          set (if tag = ''A'' then (case l of None \<Rightarrow> [] | Some e \<Rightarrow> [e]) else [])
          \<union> set (querySelectorAll_links n)"
    unfolding Elem by (rule set_subtree_links_Elem)
  then have "e \<in> set (if tag = ''A'' then (case l of None \<Rightarrow> [] | Some e \<Rightarrow> [e]) else [])
      \<or> e \<in> set (querySelectorAll_links n)"
    using assms(1) by blast
  then have "(tag = ''A'' \<and> l = Some e) \<or> e \<in> set (querySelectorAll_links n)"
  proof
    assume "e \<in> set (if tag = ''A'' then (case l of None \<Rightarrow> [] | Some e \<Rightarrow> [e]) else [])"
    then have "tag = ''A'' \<and> l = Some e"
      by (cases "tag = ''A''"; cases l) simp_all
    then show ?thesis ..
  next
    assume "e \<in> set (querySelectorAll_links n)"
    then show ?thesis ..
  qed
  then show ?thesis
  proof
    assume root: "tag = ''A'' \<and> l = Some e"
    then have "?st1 = analyzeLinkElement_start now e st"
      using qualifies_nonempty [OF assms(2)] by simp
    then have "href e \<in> set (analyzedLinks ?st1)"
      using start_covers [OF assms(2)] by simp
    with dispatched_at_mono [OF 2] show ?thesis
      unfolding eq by blast
  next
    assume inner: "e \<in> set (querySelectorAll_links n)"
    have "href e \<in> set (analyzedLinks
            (fold (analyzeLinkElement_start now) (querySelectorAll_links n) ?st1))"
    proof (rule fold_covers [where C = "\<lambda>x. {u. u = href x \<and> qualifies u}" and x = e])
      show "\<And>x s. dispatched_at now s (analyzeLinkElement_start now x s)"
        by (rule start_dispatched_at)
      show "\<And>x s. x \<in> set (querySelectorAll_links n) \<Longrightarrow>
             href e \<in> {u. u = href x \<and> qualifies u} \<Longrightarrow>
             href e \<in> set (analyzedLinks (analyzeLinkElement_start now x s))"
        using start_covers by fastforce
      show "e \<in> set (querySelectorAll_links n)" by (rule inner)
      show "href e \<in> {u. u = href e \<and> qualifies u}" using assms(2) by simp
    qed
    then show ?thesis unfolding eq .
  qed
qed

lemma added_nodes_dispatched_at:
  "dispatched_at now st (fold (on_added_node now) addedNodes st)"
  by (rule fold_dispatched_at) (rule on_added_node_dispatched_at)

lemma added_nodes_covers:
  assumes "n \<in> set addedNodes" and "e \<in> set (subtree_links n)" and "qualifies (href e)"
  shows "href e \<in> set (analyzedLinks (fold (on_added_node now) addedNodes st))"
proof (rule fold_covers [where C = "\<lambda>n. {u. \<exists>e\<in>set (subtree_links n). u = href e \<and> qualifies u}"
      and x = n])
  show "\<And>x s. dispatched_at now s (on_added_node now x s)"
    by (rule on_added_node_dispatched_at)
  show "\<And>x s. x \<in> set addedNodes \<Longrightarrow>
         href e \<in> {u. \<exists>e\<in>set (subtree_links x). u = href e \<and> qualifies u} \<Longrightarrow>
         href e \<in> set (analyzedLinks (on_added_node now x s))"
    using on_added_node_covers by fastforce
  show "n \<in> set addedNodes" by (rule assms(1))
  show "href e \<in> {u. \<exists>e\<in>set (subtree_links n). u = href e \<and> qualifies u}"
    using assms(2,3) by blast
qed

lemma observer_dispatched_at: "dispatched_at now st (observer_callback now mutations st)"
  unfolding observer_callback_def
  by (rule fold_dispatched_at) (rule added_nodes_dispatched_at)

lemma observer_covers:
  assumes "added \<in> set mutations" and "n \<in> set added"
    and "e \<in> set (subtree_links n)" and "qualifies (href e)"
  shows "href e \<in> set (analyzedLinks (observer_callback now mutations st))"
  unfolding observer_callback_def
proof (rule fold_covers [where
      C = "\<lambda>a. {u. \<exists>n\<in>set a. \<exists>e\<in>set (subtree_links n). u = href e \<and> qualifies u}"
      and x = added])
  show "\<And>x s. dispatched_at now s (fold (on_added_node now) x s)"
    by (rule added_nodes_dispatched_at)
  show "\<And>x s. x \<in> set mutations \<Longrightarrow>
         href e \<in> {u. \<exists>n\<in>set x. \<exists>e\<in>set (subtree_links n). u = href e \<and> qualifies u} \<Longrightarrow>
         href e \<in> set (analyzedLinks (fold (on_added_node now) x s))"
    using added_nodes_covers by fastforce
  show "added \<in> set mutations" by (rule assms(1))
  show "href e \<in> {u. \<exists>n\<in>set added. \<exists>e\<in>set (subtree_links n). u = href e \<and> qualifies u}"
    using assms(2,3,4) by blast
qed

text \<open>
  C8. The observer's callback, run at time \<open>now\<close>, issues all its requests at that same
  time, with no stagger; and every http(s) link a mutation delivers, as the inserted node
  itself or anywhere below it, that was not analysed before is among the links it
  registers and requests at that time.
\<close>

theorem mutation_links_dispatched_at_once:
  "\<exists>new. requests (observer_callback now mutations st) = requests st @ new \<and>
     (\<forall>r\<in>set new. fst r = now) \<and>
     (\<forall>added\<in>set mutations. \<forall>n\<in>set added. \<forall>e\<in>set (subtree_links n).
        qualifies (href e) \<longrightarrow>
          href e \<in> set (analyzedLinks (observer_callback now mutations st)) \<and>
          (href e \<notin> set (analyzedLinks st) \<longrightarrow> (now, href e) \<in> set new))"
proof -
  from observer_dispatched_at [of now st mutations] obtain new where
    new: "requests (observer_callback now mutations st) = requests st @ new"
      "list_all (\<lambda>r. fst r = now) new"
      "set (analyzedLinks (observer_callback now mutations st)) =
         set (analyzedLinks st) \<union> snd ` set new"
    unfolding dispatched_at_def by blast
  have t: "\<forall>r\<in>set new. fst r = now"
    using new(2) by (simp add: list_all_iff)
  have "href e \<in> set (analyzedLinks (observer_callback now mutations st)) \<and>
        (href e \<notin> set (analyzedLinks st) \<longrightarrow> (now, href e) \<in> set new)"
    if "added \<in> set mutations" "n \<in> set added" "e \<in> set (subtree_links n)"
      "qualifies (href e)" for added n e
  proof
    show c: "href e \<in> set (analyzedLinks (observer_callback now mutations st))"
      using that by (rule observer_covers)
    show "href e \<notin> set (analyzedLinks st) \<longrightarrow> (now, href e) \<in> set new"
    proof
      assume "href e \<notin> set (analyzedLinks st)"
      with c new(3) have "href e \<in> snd ` set new" by blast
      then obtain r where "r \<in> set new" "snd r = href e" by auto
      with t show "(now, href e) \<in> set new" by (metis prod.collapse)
    qed
  qed
  with new(1) t show ?thesis by blast
qed

theorem mutation_links_dispatched_at_once_witness:
  "qualifies (href plain_link) \<and> qualifies (href cart_link) \<and>
   analyzedLinks initial_state = [] \<and>
   subtree_links (Elem ''DIV'' None [Other, Elem ''A'' (Some plain_link) []]) = [plain_link] \<and>
   subtree_links (Elem ''A'' (Some cart_link) [Elem ''SPAN'' None []]) = [cart_link] \<and>
   (5000, href plain_link) \<in> set (requests (observer_callback 5000
       [[Elem ''DIV'' None [Other, Elem ''A'' (Some plain_link) []]],
        [Other, Elem ''A'' (Some cart_link) [Elem ''SPAN'' None []]]] initial_state)) \<and>
   (5000, href cart_link) \<in> set (requests (observer_callback 5000
       [[Elem ''DIV'' None [Other, Elem ''A'' (Some plain_link) []]],
        [Other, Elem ''A'' (Some cart_link) [Elem ''SPAN'' None []]]] initial_state))"
proof -
  let ?n1 = "Elem ''DIV'' None [Other, Elem ''A'' (Some plain_link) []]"
  let ?n2 = "Elem ''A'' (Some cart_link) [Elem ''SPAN'' None []]"
  let ?ms = "[[?n1], [Other, ?n2]]"
  have s1: "subtree_links ?n1 = [plain_link]" and s2: "subtree_links ?n2 = [cart_link]"
    by simp_all
  have i: "analyzedLinks initial_state = []" "requests initial_state = []"
    by (simp_all add: initial_state_def)
  from mutation_links_dispatched_at_once [of 5000 ?ms initial_state] obtain new where
    new: "requests (observer_callback 5000 ?ms initial_state) = requests initial_state @ new"
    and all: "\<forall>added\<in>set ?ms. \<forall>n\<in>set added. \<forall>e\<in>set (subtree_links n).
        qualifies (href e) \<longrightarrow>
          href e \<in> set (analyzedLinks (observer_callback 5000 ?ms initial_state)) \<and>
          (href e \<notin> set (analyzedLinks initial_state) \<longrightarrow> (5000, href e) \<in> set new)"
    by blast
  have "(5000, href plain_link) \<in> set new"
    using all [rule_format, of "[?n1]" ?n1 plain_link] qualifies_samples(1) i(1) by simp
  moreover have "(5000, href cart_link) \<in> set new"
    using all [rule_format, of "[Other, ?n2]" ?n2 cart_link] qualifies_samples(2) i(1) by simp
  ultimately show ?thesis
    using new s1 s2 i qualifies_samples by simp
qed

subsection \<open>Annotation\<close>

lemma addRiskIndicator_scored:
  "addRiskIndicator e \<lparr>risk_score = Some s, risk_level = lv, recommendation = rc\<rparr> =
     (if 70 \<le> s then
        e\<lparr>style_border := Some ''2px solid #ef4444'', style_backgroundColor := Some ''#fee2e2'',
          title := Some (Siren, string_of_int s, string_of_text lv),
          badges := badges e @ [Siren]\<rparr>
      else if 40 \<le> s then
        e\<lparr>style_border := Some ''2px solid #f59e0b'', style_backgroundColor := Some ''#fef3c7'',
          title := Some (WarningSign, string_of_int s, string_of_text lv),
          badges := badges e @ [WarningSign]\<rparr>
      else if 20 \<le> s then e\<lparr>title := Some (InfoSign, string_of_int s, string_of_text lv)\<rparr>
      else e\<lparr>title := Some (CheckMark, string_of_int s, string_of_text lv)\<rparr>)"
  by (simp add: addRiskIndicator_def to_number_def js_ge_def string_of_score_def)

lemma addRiskIndicator_unscored:
  "risk_score r = None \<Longrightarrow>
   addRiskIndicator e r = e\<lparr>title := Some (CheckMark, ''undefined'', string_of_text (risk_level r))\<rparr>"
  by (simp add: addRiskIndicator_def to_number_def js_ge_def string_of_score_def)

lemma string_of_int_25: "string_of_int 25 = ''25''"
  by (simp add: string_of_int_def string_of_nat.simps digit_char_def)

lemma string_of_int_10: "string_of_int 10 = ''10''"
  by (simp add: string_of_int_def string_of_nat.simps digit_char_def)

text \<open>
  C9, as the code has it. When a score \<open>s\<close> arrives, the element receives the two
  attributes \<^verbatim>\<open>data-risk-score\<close> and \<^verbatim>\<open>data-risk-level\<close> and a tooltip whose glyph
  tells the four tiers apart. A border and a background are set for the two upper tiers
  only, red from 70 and amber from 40; below 40 the border and the background stay as
  they were. The badge is appended exactly when \<open>s \<ge> 40\<close>.
\<close>

theorem annotation_by_tier:
  "getAttribute (fst (analyzeLinkElement_resume
       (Resolved ok (JsonValue \<lparr>risk_score = Some s, risk_level = lv, recommendation = rc\<rparr>))
       (e, con))) ''data-risk-score'' = Some (string_of_int s) \<and>
   getAttribute (fst (analyzeLinkElement_resume
       (Resolved ok (JsonValue \<lparr>risk_score = Some s, risk_level = lv, recommendation = rc\<rparr>))
       (e, con))) ''data-risk-level'' = Some (string_of_text lv) \<and>
   title (fst (analyzeLinkElement_resume
       (Resolved ok (JsonValue \<lparr>risk_score = Some s, risk_level = lv, recommendation = rc\<rparr>))
       (e, con))) =
     Some (if 70 \<le> s then Siren else if 40 \<le> s then WarningSign
           else if 20 \<le> s then InfoSign else CheckMark,
           string_of_int s, string_of_text lv) \<and>
   style_border (fst (analyzeLinkElement_resume
       (Resolved ok (JsonValue \<lparr>risk_score = Some s, risk_level = lv, recommendation = rc\<rparr>))
       (e, con))) =
     (if 70 \<le> s then Some ''2px solid #ef4444''
      else if 40 \<le> s then Some ''2px solid #f59e0b'' else style_border e) \<and>
   style_backgroundColor (fst (analyzeLinkElement_resume
       (Resolved ok (JsonValue \<lparr>risk_score = Some s, risk_level = lv, recommendation = rc\<rparr>))
       (e, con))) =
     (if 70 \<le> s then Some ''#fee2e2''
      else if 40 \<le> s then Some ''#fef3c7'' else style_backgroundColor e) \<and>
   badges (fst (analyzeLinkElement_resume
       (Resolved ok (JsonValue \<lparr>risk_score = Some s, risk_level = lv, recommendation = rc\<rparr>))
       (e, con))) =
     (if 70 \<le> s then badges e @ [Siren]
      else if 40 \<le> s then badges e @ [WarningSign] else badges e)"
proof -
  let ?r = "\<lparr>risk_score = Some s, risk_level = lv, recommendation = rc\<rparr>"
  let ?e = "fst (analyzeLinkElement_resume (Resolved ok (JsonValue ?r)) (e, con))"
  have e: "?e = setAttribute ''data-risk-level'' (string_of_text lv)
                  (setAttribute ''data-risk-score'' (string_of_int s) (addRiskIndicator e ?r))"
    by (simp add: resume_scored string_of_score_def)
  have "getAttribute ?e ''data-risk-score'' = Some (string_of_int s)"
    and "getAttribute ?e ''data-risk-level'' = Some (string_of_text lv)"
    by (simp_all add: e getAttribute_setAttribute)
  moreover have "title ?e =
     Some (if 70 \<le> s then Siren else if 40 \<le> s then WarningSign
           else if 20 \<le> s then InfoSign else CheckMark,
           string_of_int s, string_of_text lv)"
    by (simp add: e setAttribute_def addRiskIndicator_scored)
  moreover have "style_border ?e =
     (if 70 \<le> s then Some ''2px solid #ef4444''
      else if 40 \<le> s then Some ''2px solid #f59e0b'' else style_border e)"
    by (simp add: e setAttribute_def addRiskIndicator_scored)
  moreover have "style_backgroundColor ?e =
     (if 70 \<le> s then Some ''#fee2e2''
      else if 40 \<le> s then Some ''#fef3c7'' else style_backgroundColor e)"
    by (simp add: e setAttribute_def addRiskIndicator_scored)
  moreover have "badges ?e =
     (if 70 \<le> s then badges e @ [Siren]
      else if 40 \<le> s then badges e @ [WarningSign] else badges e)"
    by (simp add: e setAttribute_def addRiskIndicator_scored)
  ultimately show ?thesis by blast
qed

theorem annotation_by_tier_witness:
  "style_border (fst (analyzeLinkElement_resume
       (Resolved True (JsonValue \<lparr>risk_score = Some 55, risk_level = Some ''MEDIUM RISK'',
                                  recommendation = None\<rparr>)) (plain_link, [])))
     = Some ''2px solid #f59e0b'' \<and>
   badges (fst (analyzeLinkElement_resume
       (Resolved True (JsonValue \<lparr>risk_score = Some 55, risk_level = Some ''MEDIUM RISK'',
                                  recommendation = None\<rparr>)) (plain_link, [])))
     = [WarningSign] \<and>
   title (fst (analyzeLinkElement_resume
       (Resolved True (JsonValue \<lparr>risk_score = Some 55, risk_level = Some ''MEDIUM RISK'',
                                  recommendation = None\<rparr>)) (plain_link, [])))
     = Some (WarningSign, ''55'', ''MEDIUM RISK'')"
  using annotation_by_tier [of True 55 "Some ''MEDIUM RISK''" None plain_link "[]"]
  by (simp add: string_of_int_55 string_of_text_def plain_link_def)

text \<open>
  The claim as written fails below 40: a link scored 25 (INFO) and a link scored 10 (SAFE)
  come out with the same border and background, namely none.
\<close>

theorem annotation_by_tier_counterexample:
  "style_border (annotate (answer 25 ''LOW RISK'') plain_link) = None \<and>
   style_border (annotate (answer 10 ''SAFE'') plain_link) = None \<and>
   style_backgroundColor (annotate (answer 25 ''LOW RISK'') plain_link) = None \<and>
   style_backgroundColor (annotate (answer 10 ''SAFE'') plain_link) = None"
  by (simp add: annotate_def resume_scored answer_def addRiskIndicator_scored setAttribute_def
      plain_link_def)

subsection \<open>Failed requests\<close>

lemma resume_throws:
  "throws fr \<Longrightarrow> analyzeLinkElement_resume fr (e, con) = (e, con @ [''Link analysis failed:''])"
  by (simp add: throws_def analyzeLinkElement_resume_def split: fetch_result.splits body.splits)

lemma resume_unscored:
  "risk_score r = None \<Longrightarrow>
   analyzeLinkElement_resume (Resolved ok (JsonValue r)) (e, con) =
     (setAttribute ''data-risk-level'' (string_of_text (risk_level r))
        (setAttribute ''data-risk-score'' ''undefined''
           (e\<lparr>title := Some (CheckMark, ''undefined'', string_of_text (risk_level r))\<rparr>)), con)"
  by (simp add: resume_scored addRiskIndicator_unscored string_of_score_def)

lemma no_score_cases:
  "no_score fr \<longleftrightarrow> throws fr \<or> (\<exists>ok r. fr = Resolved ok (JsonValue r) \<and> risk_score r = None)"
  by (simp add: no_score_def throws_def split: fetch_result.splits body.splits)

lemma no_score_click:
  assumes "getAttribute e ''data-risk-score'' = None" and "no_score fr"
    and "target_link event = Some (fst (analyzeLinkElement_resume fr (e, con)))"
  shows "handleLinkClick proceed event br = (event, br)"
proof -
  from assms(2) consider (thrown) "throws fr"
    | (unscored) ok r where "fr = Resolved ok (JsonValue r)" "risk_score r = None"
    unfolding no_score_cases by blast
  then show ?thesis
  proof cases
    case thrown
    then have "fst (analyzeLinkElement_resume fr (e, con)) = e"
      by (simp add: resume_throws)
    with assms(3) have t: "target_link event = Some e" by simp
    have "read_riskScore e = Num 0"
      by (rule read_riskScore_absent [OF assms(1)])
    from handleLinkClick_num [OF t this] show ?thesis by simp
  next
    case unscored
    let ?e = "fst (analyzeLinkElement_resume fr (e, con))"
    have "getAttribute ?e ''data-risk-score'' = Some ''undefined''"
      by (simp add: unscored resume_unscored getAttribute_setAttribute)
    then have "read_riskScore ?e = NaN"
      by (simp add: read_riskScore_def js_or_def parseInt_undefined)
    from handleLinkClick_NaN [OF assms(3) this] show ?thesis .
  qed
qed

text \<open>
  C4, as the code has it. Take a link to an http(s) URL that carries no score attribute
  yet, submitted at time \<open>now\<close>. (1) When the request throws (the fetch rejects, or the
  body is not JSON or is \<^verbatim>\<open>null\<close>), the element is left exactly as it was and the
  failure is one more line on the console. (2) When a success response parses but holds
  no \<^verbatim>\<open>risk_score\<close>, nothing is logged and the element changes in exactly three
  places: the tooltip becomes the check mark with the score text \<^verbatim>\<open>undefined\<close> and the
  level text, the attribute \<^verbatim>\<open>data-risk-score\<close> becomes \<^verbatim>\<open>undefined\<close>, and the
  attribute \<^verbatim>\<open>data-risk-level\<close> becomes the level text (\<^verbatim>\<open>undefined\<close> when the
  level is missing too); border, background and badges stay as they were. (3) In every
  case without a score, each later click on the element is passed through untouched and
  the navigation takes place. (4) Whatever is submitted afterwards, as long as no
  \<^verbatim>\<open>rescanPage\<close> message is handled, no further request is issued for the URL.
\<close>

theorem failed_request_fails_open:
  assumes "getAttribute e ''data-risk-score'' = None" and "qualifies (href e)"
  shows "(throws fr \<longrightarrow>
            analyzeLinkElement_resume fr (e, con) = (e, con @ [''Link analysis failed:''])) \<and>
         (risk_score r = None \<longrightarrow>
            analyzeLinkElement_resume (Resolved True (JsonValue r)) (e, con) =
              (e\<lparr>title := Some (CheckMark, ''undefined'', string_of_text (risk_level r)),
                 attributes :=
                   set_attr ''data-risk-level'' (string_of_text (risk_level r))
                     (set_attr ''data-risk-score'' ''undefined'' (attributes e))\<rparr>, con) \<and>
            getAttribute (fst (analyzeLinkElement_resume (Resolved True (JsonValue r)) (e, con)))
              ''data-risk-score'' = Some ''undefined'' \<and>
            getAttribute (fst (analyzeLinkElement_resume (Resolved True (JsonValue r)) (e, con)))
              ''data-risk-level'' = Some (string_of_text (risk_level r))) \<and>
         (no_score fr \<longrightarrow>
            (\<forall>proceed event br.
               target_link event = Some (fst (analyzeLinkElement_resume fr (e, con))) \<longrightarrow>
               handleLinkClick proceed event br = (event, br)) \<and>
            (\<forall>proceed br.
               click proceed (fst (analyzeLinkElement_resume fr (e, con))) br =
               br\<lparr>location := href e\<rparr>)) \<and>
         (\<forall>ts. rescan_free ts \<longrightarrow>
               filter (\<lambda>q. snd q = href e)
                 (requests (run ts (analyzeLinkElement_start now e st))) =
               filter (\<lambda>q. snd q = href e) (requests (analyzeLinkElement_start now e st)))"
proof (intro conjI impI allI)
  assume "throws fr"
  then show "analyzeLinkElement_resume fr (e, con) = (e, con @ [''Link analysis failed:''])"
    by (rule resume_throws)
next
  assume r: "risk_score r = None"
  let ?e = "fst (analyzeLinkElement_resume (Resolved True (JsonValue r)) (e, con))"
  note u = resume_unscored [OF r, of True e con]
  show "analyzeLinkElement_resume (Resolved True (JsonValue r)) (e, con) =
              (e\<lparr>title := Some (CheckMark, ''undefined'', string_of_text (risk_level r)),
                 attributes :=
                   set_attr ''data-risk-level'' (string_of_text (risk_level r))
                     (set_attr ''data-risk-score'' ''undefined'' (attributes e))\<rparr>, con)"
    by (simp add: u setAttribute_def)
  show "getAttribute ?e ''data-risk-score'' = Some ''undefined''"
    by (simp add: u getAttribute_setAttribute)
  show "getAttribute ?e ''data-risk-level'' = Some (string_of_text (risk_level r))"
    by (simp add: u getAttribute_setAttribute)
next
  fix proceed and event :: click_event and br
  assume "no_score fr"
    and "target_link event = Some (fst (analyzeLinkElement_resume fr (e, con)))"
  with assms(1) show "handleLinkClick proceed event br = (event, br)"
    by (rule no_score_click)
next
  fix proceed br
  assume n: "no_score fr"
  let ?e = "fst (analyzeLinkElement_resume fr (e, con))"
  have h: "href ?e = href e"
    using n unfolding no_score_cases
    by (auto simp: resume_throws resume_unscored setAttribute_def)
  have "handleLinkClick proceed
          \<lparr>target_link = Some ?e, defaultPrevented = False, propagationStopped = False\<rparr> br =
        (\<lparr>target_link = Some ?e, defaultPrevented = False, propagationStopped = False\<rparr>, br)"
    by (rule no_score_click [OF assms(1) n]) simp
  then show "click proceed ?e br = br\<lparr>location := href e\<rparr>"
    by (simp add: click_def h)
next
  fix ts
  assume f: "rescan_free ts"
  have "href e \<in> set (analyzedLinks (analyzeLinkElement_start now e st))"
    by (rule start_covers [OF assms(2)])
  with f show "filter (\<lambda>q. snd q = href e)
                 (requests (run ts (analyzeLinkElement_start now e st))) =
               filter (\<lambda>q. snd q = href e) (requests (analyzeLinkElement_start now e st))"
    by (rule run_known_requests)
qed

theorem failed_request_fails_open_witness:
  "getAttribute plain_link ''data-risk-score'' = None \<and> qualifies (href plain_link) \<and>
   throws Rejected \<and> no_score Rejected \<and> risk_score error_answer = None \<and>
   rescan_free [Call 900 plain_link] \<and>
   analyzeLinkElement_resume Rejected (plain_link, []) = (plain_link, [''Link analysis failed:'']) \<and>
   getAttribute (fst (analyzeLinkElement_resume (Resolved True (JsonValue error_answer))
       (plain_link, []))) ''data-risk-level'' = Some ''undefined'' \<and>
   click False (fst (analyzeLinkElement_resume Rejected (plain_link, []))) quiet_browser
     = quiet_browser\<lparr>location := ''https://shop.example/pay''\<rparr> \<and>
   requests (run [Call 900 plain_link] (analyzeLinkElement_start 0 plain_link initial_state))
     = [(0, ''https://shop.example/pay'')]"
proof -
  have a: "getAttribute plain_link ''data-risk-score'' = None"
    by (simp add: getAttribute_def plain_link_def)
  have t: "throws Rejected" "no_score Rejected"
    by (simp_all add: throws_def no_score_def)
  have n: "risk_score error_answer = None" "string_of_text (risk_level error_answer) = ''undefined''"
    by (simp_all add: error_answer_def string_of_text_def)
  have f: "rescan_free [Call 900 plain_link]" by simp
  have h: "href plain_link = ''https://shop.example/pay''"
    by (simp add: plain_link_def)
  have s: "analyzeLinkElement_start 0 plain_link initial_state =
      \<lparr>analyzedLinks = [''https://shop.example/pay''],
        requests = [(0, ''https://shop.example/pay'')],
        in_flight = [''https://shop.example/pay'']\<rparr>"
    by (simp add: analyzeLinkElement_start_def initial_state_def plain_link_def startsWith_def
        Let_def)
  have r: "requests (run [Call 900 plain_link] (analyzeLinkElement_start 0 plain_link initial_state))
     = [(0, ''https://shop.example/pay'')]"
    by (simp add: s run_def start_known h)
  note w = failed_request_fails_open [OF a qualifies_samples(1), of Rejected "[]" error_answer]
  from w t(1) have 1: "analyzeLinkElement_resume Rejected (plain_link, []) =
      (plain_link, [''Link analysis failed:''])"
    by simp
  from w t(2) have 2: "click False (fst (analyzeLinkElement_resume Rejected (plain_link, [])))
      quiet_browser = quiet_browser\<lparr>location := href plain_link\<rparr>"
    by blast
  from w n(1) have "getAttribute (fst (analyzeLinkElement_resume
       (Resolved True (JsonValue error_answer)) (plain_link, []))) ''data-risk-level'' =
       Some (string_of_text (risk_level error_answer))"
    by blast
  then have 3: "getAttribute (fst (analyzeLinkElement_resume
       (Resolved True (JsonValue error_answer)) (plain_link, []))) ''data-risk-level'' =
       Some ''undefined''"
    by (simp only: n(2))
  from a qualifies_samples(1) t n(1) f 1 2 3 r show ?thesis
    by (simp only: h simp_thms)
qed

text \<open>
  The claim as written fails for a response that parses but holds no score (an error
  object, say): attributes and a tooltip are written to the element and nothing is
  logged.
\<close>

theorem failed_request_counterexample:
  "no_score (Resolved True (JsonValue error_answer)) \<and>
   analyzeLinkElement_resume (Resolved True (JsonValue error_answer)) (plain_link, []) =
     (plain_link\<lparr>attributes := [(''data-risk-score'', ''undefined''),
                                (''data-risk-level'', ''undefined'')],
                 title := Some (CheckMark, ''undefined'', ''undefined'')\<rparr>, [])"
  by (simp add: no_score_def error_answer_def resume_unscored setAttribute_def plain_link_def
      string_of_text_def)

subsection \<open>The reactive path\<close>













subsection \<open>Scans, rescans and mutations as runs\<close>

lemma run_append: "run (ts @ us) st = run us (run ts st)"
  by (simp add: run_def)

lemma fold_start_run:
  "fold (analyzeLinkElement_start now) es st = run (map (Call now) es) st"
  unfolding run_def by (induction es arbitrary: st) simp_all

lemma fire_timers_run:
  "fire_timers t0 timers st = run (map (\<lambda>(delay, link). Call (t0 + delay) link) timers) st"
  unfolding run_def fire_timers_def
  by (induction timers arbitrary: st) (simp_all add: split_def)

lemma initial_scan_run:
  "initial_scan t0 links st =
     run (map (\<lambda>(delay, link). Call (t0 + delay) link) (scanAllLinks links)) st"
  by (simp add: initial_scan_def fire_timers_run)

lemma on_added_node_run:
  "\<exists>es. \<forall>st. on_added_node now n st = run (map (Call now) es) st"
proof (cases n)
  case Other
  have "\<forall>st. on_added_node now n st = run (map (Call now) []) st"
    by (simp add: Other on_added_node_def run_def)
  then show ?thesis by blast
next
  case (Elem tag l cs)
  show ?thesis
  proof (cases "tag = ''A'' \<and> (case l of None \<Rightarrow> False | Some e \<Rightarrow> href e \<noteq> [])")
    case True
    then obtain e where e: "l = Some e" by (cases l) auto
    have "\<forall>st. on_added_node now n st =
            run (map (Call now) (e # querySelectorAll_links n)) st"
      using True e by (simp add: Elem on_added_node_def Let_def fold_start_run run_def)
    then show ?thesis by blast
  next
    case False
    then have "(if tag = ''A'' \<and> (case l of None \<Rightarrow> False | Some e \<Rightarrow> href e \<noteq> [])
                then (case l of None \<Rightarrow> st | Some e \<Rightarrow> analyzeLinkElement_start now e st)
                else st) = st" for st
      by (simp only: if_False)
    then have "\<forall>st. on_added_node now n st = run (map (Call now) (querySelectorAll_links n)) st"
      by (simp only: Elem on_added_node_def Let_def fold_start_run node.case) simp
    then show ?thesis by blast
  qed
qed

lemma fold_runs:
  assumes "\<And>x. \<exists>es. \<forall>st. f x st = run (map (Call now) es) st"
  shows "\<exists>es. \<forall>st. fold f xs st = run (map (Call now) es) st"
proof (induction xs)
  case Nil
  have "\<forall>st. fold f [] st = run (map (Call now) []) st" by (simp add: run_def)
  then show ?case by blast
next
  case (Cons x xs)
  from assms [of x] obtain es1 where 1: "\<forall>st. f x st = run (map (Call now) es1) st" by blast
  from Cons.IH obtain es2 where 2: "\<forall>st. fold f xs st = run (map (Call now) es2) st" by blast
  have "\<forall>st. fold f (x # xs) st = run (map (Call now) (es1 @ es2)) st"
    by (simp add: 1 2 run_append)
  then show ?case by blast
qed

text \<open>
  The observer's callback is a run of calls of \<^verbatim>\<open>analyzeLinkElement\<close>, all at the
  callback's time, and so is the scan a run of calls at the timers' times: the runs of
  tasks cover both sources.
\<close>

lemma observer_callback_run:
  "\<exists>es. \<forall>st. observer_callback now mutations st = run (map (Call now) es) st"
  unfolding observer_callback_def
  by (rule fold_runs) (rule fold_runs, rule on_added_node_run)

text \<open>After a rescan the URL of an analysed link is requested once more.\<close>

lemma rescan_requests_again:
  assumes "qualifies (href e)"
  shows "requests (fire_timers t0 (snd (rescanPage [e] st)) (fst (rescanPage [e] st))) =
           requests st @ [(t0, href e)]"
  using assms
  by (simp add: rescanPage_def scanAllLinks_def fire_timers_def start_cases)

end
